theory Spec2Isabelle
  imports Complex_Main "HOL-Library.Char_ord" "HOL-Library.List_Lexorder"
begin

section \<open>Python values and helpers used by db-dump.py\<close>

text \<open>
  The script is Python 2: \<open>str\<close> is a byte string, so \<open>len\<close> counts the
  elements of a \<open>string\<close> (a \<open>char list\<close>). Exceptions are values of \<open>error\<close>;
  a function that can raise returns \<open>error + 'a\<close> with \<open>Inl\<close> for the exception.
\<close>

datatype error =
    AttributeError | TypeError | IndexError | ValueError | UnboundLocalError

text \<open>\<open>xs[:k]\<close>: a negative bound counts from the end of the sequence.\<close>

definition py_slice_to :: "'a list \<Rightarrow> int \<Rightarrow> 'a list" where
  "py_slice_to xs k =
     (if k < 0 then take (nat (int (length xs) + k)) xs else take (nat k) xs)"

section \<open>cut (lines 34-39)\<close>

text \<open>The length is \<open>None\<close> or an integer (\<open>--cut\<close> has \<open>type=int\<close>).\<close>

definition cut :: "string \<Rightarrow> int option \<Rightarrow> string" where
  "cut txt len =
     (case len of
        None \<Rightarrow> txt
      | Some n \<Rightarrow>
          if n = 0 then txt
          else if int (length txt) \<le> n then txt
          else py_slice_to txt (n - 3) @ ''...'')"

section \<open>Column specification (Formatter.__init__, lines 45-61)\<close>

text \<open>\<open>s.split(c)\<close> for a one-character separator: never the empty list.\<close>

primrec split_on :: "char \<Rightarrow> string \<Rightarrow> string list" where
  "split_on c [] = [[]]"
| "split_on c (x # xs) =
     (if x = c then [] # split_on c xs
      else (let r = split_on c xs in (x # hd r) # tl r))"

text \<open>\<open>s.lstrip('+')\<close>\<close>

definition lstrip_plus :: "string \<Rightarrow> string" where
  "lstrip_plus s = dropWhile (\<lambda>x. x = CHR ''+'') s"

text \<open>\<open>xs.remove(x)\<close>: drops the first occurrence, ValueError when there is none.\<close>

definition list_remove :: "'a list \<Rightarrow> 'a \<Rightarrow> error + 'a list" where
  "list_remove xs x = (if x \<in> set xs then Inr (remove1 x xs) else Inl ValueError)"

definition default_columns :: "string list" where
  "default_columns =
     [''id'', ''age'', ''user'', ''formula'', ''calc'',
      ''energy'', ''fmax'', ''pbc'', ''size'', ''keywords'',
      ''charge'', ''mass'', ''fixed'', ''smax'', ''magmom'', ''cell'']"

text \<open>
  One turn of the loop over \<open>cols.split(',')\<close>. \<open>col[0]\<close> raises IndexError on an
  empty token.
\<close>

fun process_token :: "string list \<Rightarrow> string \<Rightarrow> error + string list" where
  "process_token cs [] = Inl IndexError"
| "process_token cs (c # rest) =
     (if c = CHR ''-'' then list_remove cs rest
      else Inr (cs @ [lstrip_plus (c # rest)]))"

fun process_tokens :: "string list \<Rightarrow> string list \<Rightarrow> error + string list" where
  "process_tokens cs [] = Inr cs"
| "process_tokens cs (t # ts) =
     (case process_token cs t of
        Inl e \<Rightarrow> Inl e
      | Inr cs' \<Rightarrow> process_tokens cs' ts)"

text \<open>
  The column list that \<open>Formatter.__init__\<close> leaves in \<open>self.columns\<close>. Only a
  leading \<open>+\<close> is stripped before splitting; a leading \<open>-\<close> stays in the first token.
\<close>

definition resolve_columns :: "string option \<Rightarrow> error + string list" where
  "resolve_columns cols =
     (case cols of
        None \<Rightarrow> Inr default_columns
      | Some [] \<Rightarrow> Inr default_columns
      | Some (c # rest) \<Rightarrow>
          if c = CHR ''+'' then process_tokens default_columns (split_on CHR '','' rest)
          else if c \<noteq> CHR ''-'' then process_tokens [] (split_on CHR '','' (c # rest))
          else process_tokens default_columns (split_on CHR '','' (c # rest)))"

section \<open>Rendering of numbers and padding\<close>

text \<open>
  A Python float is a finite value, an infinity or NaN. The arithmetic of the numeric
  accessors is idealised: finite values are real numbers and numpy's operations are exact.
\<close>

datatype pyfloat = Finite real | PosInf | NegInf | NaN

text \<open>What an accessor returns: an int, a float, or a string.\<close>

datatype pyval = VInt int | VFloat pyfloat | VStr string

definition digit_char :: "nat \<Rightarrow> char" where
  "digit_char d = ''0123456789'' ! (d mod 10)"

text \<open>\<open>str(n)\<close> and \<open>'%d' % n\<close>: decimal digits, a minus sign for a negative number.\<close>

fun str_nat :: "nat \<Rightarrow> string" where
  "str_nat n = (if n < 10 then [digit_char n] else str_nat (n div 10) @ [digit_char n])"

declare str_nat.simps [simp del]

definition str_int :: "int \<Rightarrow> string" where
  "str_int i = (if i < 0 then CHR ''-'' # str_nat (nat (- i)) else str_nat (nat i))"

text \<open>
  \<open>'%.3f' % x\<close>: the exact value rounded to a multiple of 1/1000, ties to even; the sign
  is kept when the value rounds to zero; infinities and NaN print as words. (The sign of
  a negative zero is not represented.)
\<close>

definition round_half_even :: "real \<Rightarrow> nat" where
  "round_half_even x =
     (let f = nat \<lfloor>x\<rfloor>; r = x - real f
      in if r < 1 / 2 then f
         else if 1 / 2 < r then f + 1
         else if even f then f else f + 1)"

definition fmt_3f :: "pyfloat \<Rightarrow> string" where
  "fmt_3f v =
     (case v of
        NaN \<Rightarrow> ''nan''
      | PosInf \<Rightarrow> ''inf''
      | NegInf \<Rightarrow> ''-inf''
      | Finite x \<Rightarrow>
          (let n = round_half_even (\<bar>x\<bar> * 1000)
           in (if x < 0 then ''-'' else []) @ str_nat (n div 1000) @ ''.'' @
              [digit_char (n div 100), digit_char (n div 10), digit_char n]))"

text \<open>
  \<open>'%*s' % (w, s)\<close>: pads with spaces to \<open>|w|\<close> characters, on the left for \<open>w \<ge> 0\<close>
  (right-justified) and on the right for \<open>w < 0\<close>; never truncates.
\<close>

definition pad :: "int \<Rightarrow> string \<Rightarrow> string" where
  "pad w s =
     (if w < 0 then s @ replicate (nat (- w) - length s) CHR '' ''
      else replicate (nat w - length s) CHR '' '' @ s)"

text \<open>\<open>sep.join(xs)\<close>\<close>

fun join :: "string \<Rightarrow> string list \<Rightarrow> string" where
  "join sep [] = []"
| "join sep [x] = x"
| "join sep (x # y # ys) = x @ sep @ join sep (y # ys)"

text \<open>Sequencing of statements that can raise.\<close>

definition bind_err :: "error + 'a \<Rightarrow> ('a \<Rightarrow> error + 'b) \<Rightarrow> error + 'b" where
  "bind_err r f = (case r of Inl e \<Rightarrow> Inl e | Inr x \<Rightarrow> f x)"

section \<open>Database rows\<close>

text \<open>
  The attributes of a row that the modelled code reads. An attribute that a row may lack
  is an option: reading it where it is \<open>None\<close> raises AttributeError. \<open>constraints\<close> can
  also be present with the Python value \<open>None\<close> (\<open>Some None\<close>). A constraint is a
  dictionary that may hold the keys \<open>mask\<close> and \<open>indices\<close>. \<open>key_value_pairs\<close> lists the
  keys in the dictionary's iteration order, each with \<open>str\<close> of its value.
\<close>

type_synonym vec3 = "real \<times> real \<times> real"

record constraint =
  mask :: "bool list option"
  indices :: "nat list option"

record db_row =
  row_id :: int
  pbc :: "bool \<times> bool \<times> bool"
  cell :: "vec3 \<times> vec3 \<times> vec3"
  forces :: "vec3 list option"
  constraints :: "constraint list option option"
  key_value_pairs :: "(string \<times> string) list option"

type_synonym accessor = "db_row \<Rightarrow> error + pyval"

section \<open>Accessors\<close>

definition get_forces :: "db_row \<Rightarrow> error + vec3 list" where
  "get_forces d = (case forces d of None \<Rightarrow> Inl AttributeError | Some f \<Rightarrow> Inr f)"

text \<open>\<open>a[m]\<close> for a boolean array \<open>m\<close>: the rows of \<open>a\<close> where \<open>m\<close> is true.\<close>

definition mask_select :: "'a list \<Rightarrow> bool list \<Rightarrow> error + 'a list" where
  "mask_select xs m =
     (if length m = length xs then Inr (map snd (filter fst (zip m xs)))
      else Inl IndexError)"

definition sumsq :: "vec3 \<Rightarrow> real" where
  "sumsq v = (case v of (x, y, z) \<Rightarrow> x\<^sup>2 + y\<^sup>2 + z\<^sup>2)"

text \<open>
  \<open>(f**2).sum(axis=1).max()**0.5\<close> (line 119); \<open>max\<close> of an empty array raises
  ValueError.
\<close>

definition max_norm :: "vec3 list \<Rightarrow> error + pyval" where
  "max_norm f =
     (case map sumsq f of
        [] \<Rightarrow> Inl ValueError
      | s # ss \<Rightarrow> Inr (VFloat (Finite (sqrt (fold max ss s)))))"

text \<open>
  \<open>Formatter.fmax\<close> (lines 108-119), statement by statement. The assignments to \<open>f\<close> of
  lines 111 and 113 are overwritten by line 116 or 118; they only read \<open>d.forces\<close>.
\<close>

definition fmax :: accessor where
  "fmax d =
     (case constraints d of
        None \<Rightarrow> Inl AttributeError
      | Some c \<Rightarrow>
          bind_err (if c = None then get_forces d else Inr []) (\<lambda>_.
          case c of
            None \<Rightarrow> Inl TypeError
          | Some cs \<Rightarrow>
              bind_err (if 1 < length cs then get_forces d else Inr []) (\<lambda>_.
              case cs of
                [] \<Rightarrow> Inl IndexError
              | c0 # _ \<Rightarrow>
                  (case mask c0 of
                     Some m \<Rightarrow>
                       bind_err (get_forces d) (\<lambda>fs.
                       bind_err (mask_select fs (map Not m)) max_norm)
                   | None \<Rightarrow> bind_err (get_forces d) max_norm))))"

definition norm3 :: "vec3 \<Rightarrow> real" where
  "norm3 v = sqrt (sumsq v)"

definition cross3 :: "vec3 \<Rightarrow> vec3 \<Rightarrow> vec3" where
  "cross3 u v =
     (case (u, v) of
        ((u1, u2, u3), (v1, v2, v3)) \<Rightarrow>
          (u2 * v3 - u3 * v2, u3 * v1 - u1 * v3, u1 * v2 - u2 * v1))"

definition det3 :: "vec3 \<times> vec3 \<times> vec3 \<Rightarrow> real" where
  "det3 m =
     (case m of
        ((a1, a2, a3), (b1, b2, b3), (c1, c2, c3)) \<Rightarrow>
          a1 * (b2 * c3 - b3 * c2) - a2 * (b1 * c3 - b3 * c1) + a3 * (b1 * c2 - b2 * c1))"

text \<open>\<open>d.cell[d.pbc]\<close>: the cell vectors of the periodic axes, in order.\<close>

definition periodic_rows :: "db_row \<Rightarrow> vec3 list" where
  "periodic_rows d =
     (case (pbc d, cell d) of
        ((p1, p2, p3), (a, b, c)) \<Rightarrow>
          map snd (filter fst [(p1, a), (p2, b), (p3, c)]))"

text \<open>\<open>Formatter.size\<close> (lines 85-93); \<open>dims\<close> is \<open>d.pbc.sum()\<close>.\<close>

definition size_col :: accessor where
  "size_col d =
     (let dims = (case pbc d of (p1, p2, p3) \<Rightarrow> length (filter id [p1, p2, p3]))
      in if dims = 0 then Inr (VStr [])
         else if dims = 1 then
           (case periodic_rows d of
              v # _ \<Rightarrow> Inr (VFloat (Finite (norm3 v)))
            | [] \<Rightarrow> Inl IndexError)
         else if dims = 2 then
           (case periodic_rows d of
              [u, v] \<Rightarrow> Inr (VFloat (Finite (norm3 (cross3 u v))))
            | _ \<Rightarrow> Inl TypeError)
         else Inr (VFloat (Finite \<bar>det3 (cell d)\<bar>)))"

text \<open>\<open>Formatter.id\<close> (lines 70-71).\<close>

definition id_col :: accessor where
  "id_col d = Inr (VInt (row_id d))"

text \<open>The closure that \<open>keyval_factory\<close> returns (lines 156-160).\<close>

definition keyval_func :: "string \<Rightarrow> accessor" where
  "keyval_func key d =
     (case key_value_pairs d of
        None \<Rightarrow> Inl AttributeError
      | Some kv \<Rightarrow>
          Inr (VStr (case map_of kv key of None \<Rightarrow> ''(none)'' | Some v \<Rightarrow> v)))"

section \<open>The formatter (lines 41-68)\<close>

text \<open>
  \<open>getattr(self, col, None)\<close> finds the methods of the class. \<open>id\<close>, \<open>size\<close> and \<open>fmax\<close>
  are modelled above; the other attributes (\<open>age\<close>, \<open>formula\<close>, \<open>mass\<close> and so on, which
  call into ase and numpy) are the parameter \<open>other\<close>. A name that is no attribute is
  bound to the key/value closure.
\<close>

definition bind_accessor :: "(string \<Rightarrow> accessor option) \<Rightarrow> string \<Rightarrow> accessor" where
  "bind_accessor other col =
     (if col = ''id'' then id_col
      else if col = ''size'' then size_col
      else if col = ''fmax'' then fmax
      else (case other col of Some f \<Rightarrow> f | None \<Rightarrow> keyval_func col))"

record formatter =
  columns :: "string list"
  funcs :: "accessor list"
  sort_by :: "string option"

definition Formatter_init ::
  "(string \<Rightarrow> accessor option) \<Rightarrow> string option \<Rightarrow> string option \<Rightarrow> error + formatter" where
  "Formatter_init other cols srt =
     bind_err (resolve_columns cols) (\<lambda>cs.
       Inr \<lparr>columns = cs, funcs = map (bind_accessor other) cs, sort_by = srt\<rparr>)"

section \<open>Formatter.format (lines 162-232)\<close>

record options =
  opt_count :: bool
  opt_list_columns :: bool
  opt_columns :: "string option"
  opt_include_all :: bool
  opt_sort :: "string option"
  opt_uniq :: bool
  opt_extract :: "string option"
  opt_wiki_table :: bool
  opt_quiet :: bool
  opt_verbose :: bool

text \<open>The string a value is replaced by in lines 182-187, and whether line 187 runs.\<close>

fun render_value :: "pyval \<Rightarrow> string" where
  "render_value (VInt n) = str_int n"
| "render_value (VFloat x) = fmt_3f x"
| "render_value (VStr s) = s"

fun is_text :: "pyval \<Rightarrow> bool" where
  "is_text (VStr s) = True"
| "is_text _ = False"

text \<open>
  The inner loop (lines 176-190) from index \<open>i\<close> on: the state is the row built so far,
  the widths and the signs. Only AttributeError is caught; \<open>signs[i]\<close> and \<open>widths[i]\<close>
  raise IndexError out of range.
\<close>

fun row_cells ::
  "nat \<Rightarrow> accessor list \<Rightarrow> db_row \<Rightarrow> string list \<times> nat list \<times> int list \<Rightarrow>
     error + (string list \<times> nat list \<times> int list)" where
  "row_cells i [] d st = Inr st"
| "row_cells i (f # fs) d (row, widths, signs) =
     (case f d of
        Inl e \<Rightarrow>
          if e = AttributeError then row_cells (Suc i) fs d (row @ [[]], widths, signs)
          else Inl e
      | Inr v \<Rightarrow>
          if is_text v \<and> length signs \<le> i then Inl IndexError
          else if length widths \<le> i then Inl IndexError
          else
            (let s = render_value v;
                 signs' = (if is_text v then signs[i := - 1] else signs);
                 widths' = (if widths ! i < length s then widths[i := length s] else widths)
             in row_cells (Suc i) fs d (row @ [s], widths', signs')))"

text \<open>
  The outer loop (lines 174-192). The data rows are kept apart from the header row,
  which the source holds as \<open>table[0]\<close>.
\<close>

fun table_rows ::
  "accessor list \<Rightarrow> db_row list \<Rightarrow> string list list \<times> nat list \<times> int list \<times> int list \<Rightarrow>
     error + (string list list \<times> nat list \<times> int list \<times> int list)" where
  "table_rows fs [] st = Inr st"
| "table_rows fs (d # ds) (table, widths, signs, ids) =
     (case row_cells 0 fs d ([], widths, signs) of
        Inl e \<Rightarrow> Inl e
      | Inr (row, widths', signs') \<Rightarrow>
          table_rows fs ds (table @ [row], widths', signs', ids @ [row_id d]))"

text \<open>\<open>xs.index(x)\<close>\<close>

definition index_of :: "'a list \<Rightarrow> 'a \<Rightarrow> error + nat" where
  "index_of xs x =
     (if x \<in> set xs then Inr (length (takeWhile (\<lambda>y. y \<noteq> x) xs)) else Inl ValueError)"

text \<open>
  Lines 194-198: a stable sort of the data rows on the cell of the sort column, compared
  as byte strings. \<open>row[n]\<close> raises IndexError on a row that is too short.
\<close>

definition sort_rows ::
  "string list \<Rightarrow> string option \<Rightarrow> string list list \<Rightarrow> error + string list list" where
  "sort_rows cols srt rows =
     (case srt of
        None \<Rightarrow> Inr rows
      | Some s \<Rightarrow>
          if s = [] then Inr rows
          else
            bind_err (index_of cols s) (\<lambda>n.
              if list_ex (\<lambda>row. length row \<le> n) rows then Inl IndexError
              else Inr (sort_key (\<lambda>row. row ! n) rows)))"

text \<open>
  Lines 208-209 and 213-214: the finished group goes to the output with its count, and
  the last width grows to the length of \<open>str(count)\<close>. The count is stored as the string
  that \<open>%s\<close> prints for it.
\<close>

definition emit_group ::
  "string list \<Rightarrow> nat \<Rightarrow> string list list \<times> nat list \<Rightarrow> error + (string list list \<times> nat list)" where
  "emit_group first_row n st =
     (case st of
        (out, widths) \<Rightarrow>
          if widths = [] then Inl IndexError
          else Inr (out @ [first_row @ [str_nat n]],
                    widths[length widths - 1 := max (last widths) (length (str_nat n))]))"

text \<open>The loop of lines 204-211, then lines 213-214.\<close>

fun uniq_loop ::
  "string list \<Rightarrow> nat \<Rightarrow> string list list \<Rightarrow> string list list \<times> nat list \<Rightarrow>
     error + (string list list \<times> nat list)" where
  "uniq_loop first_row n [] st = emit_group first_row n st"
| "uniq_loop first_row n (row # rows) st =
     (if row = first_row then uniq_loop first_row (Suc n) rows st
      else bind_err (emit_group first_row n st) (uniq_loop row 1 rows))"

text \<open>Lines 200-216; \<open>table.pop(0)\<close> raises IndexError when there is no data row.\<close>

definition uniq_table ::
  "string list list \<Rightarrow> nat list \<Rightarrow> error + (string list list \<times> nat list)" where
  "uniq_table rows widths =
     (case rows of
        [] \<Rightarrow> Inl IndexError
      | first_row # rest \<Rightarrow> uniq_loop first_row 1 rest ([], widths))"

text \<open>Lines 218-219: \<open>w and max(w, len(col))\<close> is \<open>0\<close> when \<open>w\<close> is \<open>0\<close>.\<close>

definition final_widths :: "nat list \<Rightarrow> string list \<Rightarrow> nat list" where
  "final_widths widths cols =
     map (\<lambda>(w, col). if w = 0 then 0 else max w (length col)) (zip widths cols)"

text \<open>Line 221.\<close>

definition visible_columns :: "nat list \<Rightarrow> string list \<Rightarrow> string list" where
  "visible_columns widths header = map snd (filter (\<lambda>(w, col). 0 < w) (zip widths header))"

text \<open>Lines 225-229: one line of the table, without its newline.\<close>

definition format_line :: "bool \<Rightarrow> nat list \<Rightarrow> int list \<Rightarrow> string list \<Rightarrow> string" where
  "format_line wiki widths signs row =
     (let line = join ''|'' (map (\<lambda>(w, sg, s). pad (int w * sg) s)
                   (filter (\<lambda>(w, sg, s). 0 < w) (zip widths (zip signs row))))
      in if wiki then ''|'' @ line @ ''|'' else line)"

text \<open>
  The local variables of \<open>format\<close> when it reaches line 223: the header row, the data
  rows, the final widths, the signs and the ids.
\<close>

record layout =
  header :: "string list"
  rows :: "string list list"
  widths :: "nat list"
  signs :: "int list"
  ids :: "int list"

text \<open>
  Lines 163-221. \<open>columns += ['repeat']\<close> extends \<open>self.columns\<close> in place, so the sort
  column is looked up in the extended list.
\<close>

definition format_layout :: "formatter \<Rightarrow> db_row list \<Rightarrow> options \<Rightarrow> error + layout" where
  "format_layout fm dcts opts =
     (let columns1 = (if opt_uniq opts then columns fm @ [''repeat''] else columns fm);
          head = (if opt_wiki_table opts then map (\<lambda>col. ''*'' @ col @ ''*'') columns1
                  else columns1)
      in bind_err
           (table_rows (funcs fm) dcts
              ([], map (\<lambda>col. 0) head, map (\<lambda>col. 1) head, []))
           (\<lambda>(table, widths1, sg, is).
              bind_err (sort_rows columns1 (sort_by fm) table) (\<lambda>sorted.
              bind_err (if opt_uniq opts then uniq_table sorted widths1
                        else Inr (sorted, widths1))
                (\<lambda>(table2, widths2).
                   Inr \<lparr>header = head, rows = table2,
                        widths = final_widths widths2 head, signs = sg, ids = is\<rparr>))))"

text \<open>
  \<open>format\<close>: the lines written to standard output (none with \<open>--list-columns\<close>) and the
  returned pair of the ids and the columns of non-zero width.
\<close>

definition format ::
  "formatter \<Rightarrow> db_row list \<Rightarrow> options \<Rightarrow> error + (string list \<times> int list \<times> string list)" where
  "format fm dcts opts =
     bind_err (format_layout fm dcts opts) (\<lambda>l.
       Inr (if opt_list_columns opts then []
            else map (format_line (opt_wiki_table opts) (widths l) (signs l))
                   (header l # rows l),
            ids l,
            visible_columns (widths l) (header l)))"

section \<open>run (lines 235-291)\<close>

text \<open>
  What \<open>run\<close> does to the outside, in order: lines printed, writers opened, structures
  written. \<open>WritingConfig\<close> is the message of line 290.
\<close>

datatype event =
    CountLine string
  | TableLine string
  | ColumnLine string
  | WriterOpen string
  | WritingConfig nat
  | WriterWrite string int

text \<open>
  Library code that \<open>run\<close> and the formatter call: \<open>plural\<close> of ase.db.cli, the
  accessors not modelled here, and \<open>template % i\<close> for a file name template.
\<close>

record externals =
  plural :: "nat \<Rightarrow> string \<Rightarrow> string"
  other_accessors :: "string \<Rightarrow> accessor option"
  index_filename :: "string \<Rightarrow> nat \<Rightarrow> error + string"

text \<open>Lines 262-267: the keys of all rows, each once, in order of first appearance.\<close>

fun add_keys :: "string list \<Rightarrow> string list \<Rightarrow> string list" where
  "add_keys keys [] = keys"
| "add_keys keys (k # ks) = add_keys (if k \<in> set keys then keys else keys @ [k]) ks"

fun collect_keys :: "string list \<Rightarrow> db_row list \<Rightarrow> string list" where
  "collect_keys keys [] = keys"
| "collect_keys keys (d # ds) =
     collect_keys
       (case key_value_pairs d of None \<Rightarrow> keys | Some kv \<Rightarrow> add_keys keys (map fst kv)) ds"

text \<open>Lines 284-291 for a template with a \<open>%\<close>: a writer for each row.\<close>

fun extract_each ::
  "externals \<Rightarrow> string \<Rightarrow> int \<Rightarrow> nat \<Rightarrow> db_row list \<Rightarrow> event list \<times> error option" where
  "extract_each ext tmpl verbosity i [] = ([], None)"
| "extract_each ext tmpl verbosity i (d # ds) =
     (case index_filename ext tmpl i of
        Inl e \<Rightarrow> ([], Some e)
      | Inr filename \<Rightarrow>
          (case extract_each ext tmpl verbosity (Suc i) ds of
             (evs, err) \<Rightarrow>
               (WriterOpen filename #
                (if 1 < verbosity then [WritingConfig i] else []) @
                WriterWrite filename (row_id d) # evs, err)))"

text \<open>Lines 284-291 for a template without a \<open>%\<close>: one writer, opened at line 283.\<close>

fun extract_all :: "string \<Rightarrow> int \<Rightarrow> nat \<Rightarrow> db_row list \<Rightarrow> event list" where
  "extract_all filename verbosity i [] = []"
| "extract_all filename verbosity i (d # ds) =
     (if 1 < verbosity then [WritingConfig i] else []) @
     WriterWrite filename (row_id d) # extract_all filename verbosity (Suc i) ds"

definition extraction ::
  "externals \<Rightarrow> options \<Rightarrow> db_row list \<Rightarrow> int \<Rightarrow> event list \<times> error option" where
  "extraction ext opts dcts verbosity =
     (case opt_extract opts of
        None \<Rightarrow> ([], None)
      | Some tmpl \<Rightarrow>
          if CHR ''%'' \<in> set tmpl then extract_each ext tmpl verbosity 0 dcts
          else (WriterOpen tmpl # extract_all tmpl verbosity 0 dcts, None))"

text \<open>
  \<open>run\<close> from line 251 on, given the rows that \<open>con.select\<close> returned: the events up to
  the return or the exception, and the exception if there is one. \<open>columns\<close> is bound
  only by line 272.
\<close>

definition run ::
  "externals \<Rightarrow> options \<Rightarrow> db_row list \<Rightarrow> int \<Rightarrow> event list \<times> error option" where
  "run ext opts selected verbosity =
     (if opt_count opts then ([CountLine (plural ext (length selected) ''row'')], None)
      else if selected = [] then ([], None)
      else
        (let cols = (if opt_include_all opts \<or> opt_list_columns opts
                     then Some (join '','' (map (\<lambda>key. CHR ''+'' # key) (collect_keys [] selected)))
                     else opt_columns opts)
         in case Formatter_init (other_accessors ext) cols (opt_sort opts) of
              Inl e \<Rightarrow> ([], Some e)
            | Inr f \<Rightarrow>
                (case (if 1 \<le> verbosity then map_sum id Some (format f selected opts)
                       else Inr None) of
                   Inl e \<Rightarrow> ([], Some e)
                 | Inr formatted \<Rightarrow>
                     (let out1 = (case formatted of
                                    None \<Rightarrow> []
                                  | Some (lines, is, cs) \<Rightarrow> map TableLine lines)
                      in if 1 < verbosity \<or> opt_list_columns opts then
                           (case formatted of
                              None \<Rightarrow> (out1, Some UnboundLocalError)
                            | Some (lines, is, cs) \<Rightarrow>
                                (let out2 = out1 @ map (\<lambda>col. ColumnLine
                                              (if opt_list_columns opts then col
                                               else ''COLUMN '' @ col)) cs
                                 in if opt_list_columns opts then (out2, None)
                                    else (case extraction ext opts selected verbosity of
                                            (evs, err) \<Rightarrow> (out2 @ evs, err))))
                         else (case extraction ext opts selected verbosity of
                                 (evs, err) \<Rightarrow> (out1 @ evs, err))))))"

text \<open>Line 366.\<close>

definition verbosity_of :: "options \<Rightarrow> int" where
  "verbosity_of opts =
     1 - (if opt_quiet opts then 1 else 0) + (if opt_verbose opts then 1 else 0)"

section \<open>Notions used in the statements\<close>

text \<open>
  The runs of a list: each maximal block of consecutive equal elements, with its length.
\<close>

function run_lengths :: "'a list \<Rightarrow> ('a \<times> nat) list" where
  "run_lengths [] = []"
| "run_lengths (x # xs) =
     (x, Suc (length (takeWhile (\<lambda>y. y = x) xs))) # run_lengths (dropWhile (\<lambda>y. y = x) xs)"
  by pat_completeness auto
termination
  by (relation "measure length") (auto simp: length_dropWhile_le less_Suc_eq_le)

text \<open>
  The cell that lines 177-187 make of an accessor's result when the row is not abandoned:
  empty for a caught AttributeError, the rendered value otherwise.
\<close>

definition cell_text :: "accessor \<Rightarrow> db_row \<Rightarrow> string" where
  "cell_text f d = (case f d of Inl e \<Rightarrow> [] | Inr v \<Rightarrow> render_value v)"

text \<open>The accessor raises an exception that line 179 does not catch.\<close>

definition fatal :: "accessor \<Rightarrow> db_row \<Rightarrow> bool" where
  "fatal f d = (case f d of Inl e \<Rightarrow> e \<noteq> AttributeError | Inr v \<Rightarrow> False)"

text \<open>The accessor returns a value that is neither an int nor a float.\<close>

definition textual :: "accessor \<Rightarrow> db_row \<Rightarrow> bool" where
  "textual f d = (case f d of Inl e \<Rightarrow> False | Inr v \<Rightarrow> is_text v)"

text \<open>The length of the longest cell of a column; \<open>0\<close> for no rows.\<close>

definition longest_cell :: "accessor \<Rightarrow> db_row list \<Rightarrow> nat" where
  "longest_cell f dcts = fold max (map (\<lambda>d. length (cell_text f d)) dcts) 0"

text \<open>A decimal digit.\<close>

definition is_digit :: "char \<Rightarrow> bool" where
  "is_digit ch = (ch \<in> set ''0123456789'')"

section \<open>Truncation\<close>

text \<open>
  C3, as amended. For every string \<open>txt\<close> and every length \<open>n \<ge> 3\<close>: a string longer
  than \<open>n\<close> becomes its first \<open>n - 3\<close> characters followed by \<open>...\<close>, of length exactly
  \<open>n\<close>. For every \<open>n > 0\<close> a string of at most \<open>n\<close> characters is returned unchanged, and
  for \<open>n = 0\<close> every string is returned unchanged.
\<close>

theorem cut_spec:
  "(3 \<le> n \<and> n < int (length txt) \<longrightarrow>
      cut txt (Some n) = take (nat (n - 3)) txt @ ''...'' \<and>
      int (length (cut txt (Some n))) = n)
   \<and> (0 < n \<and> int (length txt) \<le> n \<longrightarrow> cut txt (Some n) = txt)
   \<and> cut txt (Some 0) = txt"
  by (auto simp add: cut_def py_slice_to_def)

theorem cut_spec_witness:
  "cut ''abcdefgh'' (Some 5) = ''ab...'' \<and> int (length (cut ''abcdefgh'' (Some 5))) = 5
   \<and> cut ''abc'' (Some 5) = ''abc'' \<and> cut ''abcdefgh'' (Some 0) = ''abcdefgh''"
  using cut_spec [of 5 "''abcdefgh''"] cut_spec [of 5 "''abc''"]
  by simp

text \<open>
  With \<open>n = 1\<close> the slice bound \<open>n - 3\<close> is negative and counts from the end: a string of
  five characters comes back with six.
\<close>

theorem cut_spec_counterexample:
  "(1::int) < int (length ''abcde'') \<and> cut ''abcde'' (Some 1) = ''abc...''
   \<and> int (length (cut ''abcde'' (Some 1))) \<noteq> 1"
  by (simp add: cut_def py_slice_to_def)

section \<open>Resolving the column specification\<close>

lemma process_tokens_append:
  "process_tokens cs (xs @ ys) =
     (case process_tokens cs xs of Inl e \<Rightarrow> Inl e | Inr cs' \<Rightarrow> process_tokens cs' ys)"
  by (induction xs arbitrary: cs) (auto split: sum.splits)

lemma process_tokens_additions:
  assumes "\<forall>t \<in> set ts. t \<noteq> [] \<and> hd t \<noteq> CHR ''-''"
  shows "process_tokens cs ts = Inr (cs @ map lstrip_plus ts)"
  using assms
proof (induction ts arbitrary: cs)
  case Nil
  then show ?case by simp
next
  case (Cons t ts)
  then obtain c r where t: "t = c # r" and c: "c \<noteq> CHR ''-''"
    by (cases t) auto
  from Cons.prems have rest: "\<forall>t \<in> set ts. t \<noteq> [] \<and> hd t \<noteq> CHR ''-''"
    by simp
  show ?case
    using Cons.IH [OF rest] t c by simp
qed

lemma remove1_distinct_filter:
  "distinct cs \<Longrightarrow> remove1 x cs = filter (\<lambda>c. c \<noteq> x) cs"
  by (simp add: distinct_remove1_removeAll removeAll_filter_not_eq) (metis)

lemma process_tokens_removals:
  assumes "distinct cs" and "distinct names" and "set names \<subseteq> set cs"
  shows "process_tokens cs (map (\<lambda>n. CHR ''-'' # n) names) =
           Inr (filter (\<lambda>c. c \<notin> set names) cs)"
  using assms
proof (induction names arbitrary: cs)
  case Nil
  then show ?case by simp
next
  case (Cons n ns)
  let ?cs' = "filter (\<lambda>c. c \<noteq> n) cs"
  have step: "process_token cs (CHR ''-'' # n) = Inr ?cs'"
    using Cons.prems by (simp add: list_remove_def remove1_distinct_filter)
  have d: "distinct ?cs'" using Cons.prems by simp
  have sub: "set ns \<subseteq> set ?cs'" using Cons.prems by auto
  have dn: "distinct ns" using Cons.prems by simp
  have "filter (\<lambda>c. c \<notin> set ns) ?cs' = filter (\<lambda>c. c \<notin> set (n # ns)) cs"
    by (induction cs) auto
  then show ?case
    using Cons.IH [OF d dn sub] step by simp
qed

lemma distinct_default_columns: "distinct default_columns"
  by (simp add: default_columns_def)

text \<open>
  C2, as amended. A specification with a leading \<open>+\<close> whose tokens are all non-empty and
  do not begin with \<open>-\<close> resolves to the default columns followed by the tokens, each
  without its leading \<open>+\<close> signs, in order (hence a superset of the default list). A
  specification with a leading \<open>-\<close> whose tokens are all of the form \<open>-name\<close>, for
  distinct names of default columns, resolves to the default list without these names,
  the rest in its order.
\<close>

theorem resolve_columns_signed:
  "((\<forall>t \<in> set (split_on CHR '','' rest). t \<noteq> [] \<and> hd t \<noteq> CHR ''-'') \<longrightarrow>
      resolve_columns (Some (CHR ''+'' # rest)) =
        Inr (default_columns @ map lstrip_plus (split_on CHR '','' rest)))
   \<and> (split_on CHR '','' (CHR ''-'' # rest) = map (\<lambda>n. CHR ''-'' # n) names \<and>
        distinct names \<and> set names \<subseteq> set default_columns \<longrightarrow>
      resolve_columns (Some (CHR ''-'' # rest)) =
        Inr (filter (\<lambda>c. c \<notin> set names) default_columns))"
proof (intro conjI impI)
  assume "\<forall>t \<in> set (split_on CHR '','' rest). t \<noteq> [] \<and> hd t \<noteq> CHR ''-''"
  then show "resolve_columns (Some (CHR ''+'' # rest)) =
        Inr (default_columns @ map lstrip_plus (split_on CHR '','' rest))"
    by (simp add: resolve_columns_def process_tokens_additions)
next
  assume a: "split_on CHR '','' (CHR ''-'' # rest) = map (\<lambda>n. CHR ''-'' # n) names \<and>
        distinct names \<and> set names \<subseteq> set default_columns"
  have "resolve_columns (Some (CHR ''-'' # rest)) =
          process_tokens default_columns (split_on CHR '','' (CHR ''-'' # rest))"
    by (simp add: resolve_columns_def)
  also have "\<dots> = process_tokens default_columns (map (\<lambda>n. CHR ''-'' # n) names)"
    using a by simp
  also have "\<dots> = Inr (filter (\<lambda>c. c \<notin> set names) default_columns)"
    using a by (intro process_tokens_removals distinct_default_columns) simp_all
  finally show "resolve_columns (Some (CHR ''-'' # rest)) =
        Inr (filter (\<lambda>c. c \<notin> set names) default_columns)" .
qed

theorem resolve_columns_signed_witness:
  "resolve_columns (Some ''+a,+b'') = Inr (default_columns @ [''a'', ''b''])
   \<and> resolve_columns (Some ''-age,-id'') =
       Inr [''user'', ''formula'', ''calc'', ''energy'', ''fmax'', ''pbc'', ''size'',
            ''keywords'', ''charge'', ''mass'', ''fixed'', ''smax'', ''magmom'', ''cell'']"
proof -
  have s1: "split_on CHR '','' ''a,+b'' = [''a'', ''+b'']" by simp
  have s2: "split_on CHR '','' ''-age,-id'' = map (\<lambda>n. CHR ''-'' # n) [''age'', ''id'']"
    by simp
  have h1: "\<forall>t \<in> set (split_on CHR '','' ''a,+b''). t \<noteq> [] \<and> hd t \<noteq> CHR ''-''"
    unfolding s1 by simp
  have h2: "split_on CHR '','' (CHR ''-'' # ''age,-id'') = map (\<lambda>n. CHR ''-'' # n) [''age'', ''id'']
      \<and> distinct [''age'', ''id''] \<and> set [''age'', ''id''] \<subseteq> set default_columns"
    using s2 by (simp add: default_columns_def)
  have a: "resolve_columns (Some (CHR ''+'' # ''a,+b'')) =
        Inr (default_columns @ map lstrip_plus (split_on CHR '','' ''a,+b''))"
   and b: "resolve_columns (Some (CHR ''-'' # ''age,-id'')) =
        Inr (filter (\<lambda>c. c \<notin> set [''age'', ''id'']) default_columns)"
    using h1 h2 resolve_columns_signed [where rest = "''a,+b''"]
      resolve_columns_signed [where rest = "''age,-id''" and names = "[''age'', ''id'']"]
    by blast+
  show ?thesis
    using a b unfolding s1 by (simp add: lstrip_plus_def default_columns_def)
qed

text \<open>
  After a leading \<open>+\<close> the token \<open>-id\<close> removes a default column, so the result is no
  superset of the default list; after a leading \<open>-\<close> the token \<open>foo\<close> is appended; and
  \<open>-foo\<close> names no default column, so the removal raises ValueError.
\<close>

theorem resolve_columns_signed_counterexample:
  "resolve_columns (Some ''+a,-id'') =
     Inr [''age'', ''user'', ''formula'', ''calc'', ''energy'', ''fmax'', ''pbc'', ''size'',
          ''keywords'', ''charge'', ''mass'', ''fixed'', ''smax'', ''magmom'', ''cell'', ''a'']
   \<and> ''id'' \<in> set default_columns
   \<and> resolve_columns (Some ''-id,foo'') =
     Inr [''age'', ''user'', ''formula'', ''calc'', ''energy'', ''fmax'', ''pbc'', ''size'',
          ''keywords'', ''charge'', ''mass'', ''fixed'', ''smax'', ''magmom'', ''cell'', ''foo'']
   \<and> ''foo'' \<notin> set default_columns
   \<and> resolve_columns (Some ''-foo'') = Inl ValueError"
  by (simp add: resolve_columns_def default_columns_def list_remove_def lstrip_plus_def)

text \<open>
  C8. In a specification without a leading sign the columns start from the empty list.
  When the tokens before a token \<open>-name\<close> are processed without an error and leave a
  list that does not hold \<open>name\<close>, resolution fails with the lookup error of
  \<open>list.remove\<close> (ValueError); the token is not skipped, no formatter is made, and
  \<open>run\<close> ends with this exception before it prints anything.
\<close>

theorem resolve_remove_absent_fails:
  assumes "c \<noteq> CHR ''+''" and "c \<noteq> CHR ''-''"
    and "split_on CHR '','' (c # rest) = pre @ (CHR ''-'' # name) # post"
    and "process_tokens [] pre = Inr cs"
    and "name \<notin> set cs"
  shows "resolve_columns (Some (c # rest)) = Inl ValueError
    \<and> Formatter_init other (Some (c # rest)) srt = Inl ValueError
    \<and> (selected \<noteq> [] \<and> \<not> opt_count opts \<and> \<not> opt_include_all opts \<and>
        \<not> opt_list_columns opts \<and> opt_columns opts = Some (c # rest) \<longrightarrow>
          run ext opts selected verbosity = ([], Some ValueError))"
proof -
  have "resolve_columns (Some (c # rest)) =
          process_tokens [] (pre @ (CHR ''-'' # name) # post)"
    using assms(1,2,3) by (simp add: resolve_columns_def)
  also have "\<dots> = Inl ValueError"
    using assms(4,5) by (simp add: process_tokens_append list_remove_def)
  finally have r: "resolve_columns (Some (c # rest)) = Inl ValueError" .
  then have f: "\<And>other srt. Formatter_init other (Some (c # rest)) srt = Inl ValueError"
    by (simp add: Formatter_init_def bind_err_def)
  show ?thesis
    using r f by (simp add: run_def)
qed

theorem resolve_remove_absent_fails_witness:
  "resolve_columns (Some ''a,-b'') = Inl ValueError
   \<and> run \<lparr>plural = (\<lambda>n w. str_nat n @ '' '' @ w @ (if n = 1 then [] else ''s'')),
          other_accessors = (\<lambda>col. None), index_filename = (\<lambda>t i. Inr (t @ str_nat i))\<rparr>
       \<lparr>opt_count = False, opt_list_columns = False, opt_columns = Some ''a,-b'',
        opt_include_all = False, opt_sort = None, opt_uniq = False,
        opt_extract = None, opt_wiki_table = False, opt_quiet = False,
        opt_verbose = False\<rparr>
       [\<lparr>row_id = 1, pbc = (False, False, False),
         cell = ((1, 0, 0), (0, 1, 0), (0, 0, 1)), forces = None,
         constraints = None, key_value_pairs = None\<rparr>] 1
     = ([], Some ValueError)"
  using resolve_remove_absent_fails [where c = "CHR ''a''" and rest = "'',-b''"
      and pre = "[''a'']" and name = "''b''" and post = "[]" and cs = "[''a'']"
      and verbosity = 1 and selected = "[\<lparr>row_id = 1, pbc = (False, False, False),
         cell = ((1, 0, 0), (0, 1, 0), (0, 0, 1)), forces = None,
         constraints = None, key_value_pairs = None\<rparr>]"
      and opts = "\<lparr>opt_count = False, opt_list_columns = False, opt_columns = Some ''a,-b'',
        opt_include_all = False, opt_sort = None, opt_uniq = False,
        opt_extract = None, opt_wiki_table = False, opt_quiet = False,
        opt_verbose = False\<rparr>"]
  by (simp add: lstrip_plus_def)

text \<open>
  A row whose \<open>constraints\<close> is \<open>None\<close> and that has forces stops \<open>format\<close>: the
  TypeError of \<open>fmax\<close> is not caught at line 179.
\<close>

lemma format_fmax_constraints_None:
  assumes "constraints d = Some None" and "forces d = Some fs"
  shows "format \<lparr>columns = [''fmax''], funcs = [fmax], sort_by = srt\<rparr> (d # ds) opts =
           Inl TypeError"
proof -
  have "fmax d = Inl TypeError"
    using assms by (simp add: fmax_def bind_err_def get_forces_def)
  then show ?thesis
    by (simp add: format_def format_layout_def bind_err_def)
qed

section \<open>The accessors fmax and size\<close>

lemma sqrt_square_nonneg: "0 \<le> x \<Longrightarrow> sqrt (x * x) = x"
  by (simp add: real_sqrt_mult)

text \<open>
  What \<open>fmax\<close> does otherwise: TypeError from \<open>len(None)\<close> when \<open>constraints\<close> is
  \<open>None\<close> and the forces are there, AttributeError when they are not; with a single
  constraint that has a mask, the maximum over the atoms whose mask entry is false; and
  whatever the number of constraints, the first one alone decides.
\<close>

lemma fmax_constraints_None:
  assumes "constraints d = Some None" and "forces d = Some fs"
  shows "fmax d = Inl TypeError"
  using assms by (simp add: fmax_def bind_err_def get_forces_def)

lemma fmax_constraints_None_no_forces:
  assumes "constraints d = Some None" and "forces d = None"
  shows "fmax d = Inl AttributeError"
  using assms by (simp add: fmax_def bind_err_def get_forces_def)

lemma fmax_single_mask:
  assumes "constraints d = Some (Some [c])" and "mask c = Some m"
    and "forces d = Some fs" and "length m = length fs"
  shows "fmax d = max_norm (map snd (filter (\<lambda>(fixed, f). \<not> fixed) (zip m fs)))"
proof -
  have "map snd (filter fst (zip (map Not m) fs)) =
          map snd (filter (\<lambda>(fixed, f). \<not> fixed) (zip m fs))"
    using assms(4) by (induction m fs rule: list_induct2) auto
  then show ?thesis
    using assms by (simp add: fmax_def bind_err_def get_forces_def mask_select_def)
qed

lemma fmax_first_without_mask:
  assumes "constraints d = Some (Some (c # cs))" and "mask c = None"
    and "forces d = Some fs"
  shows "fmax d = max_norm fs"
  using assms by (simp add: fmax_def bind_err_def get_forces_def)

lemma fmax_first_with_mask:
  assumes "constraints d = Some (Some (c # cs))" and "mask c = Some m"
    and "forces d = Some fs" and "length m = length fs"
  shows "fmax d = max_norm (map snd (filter (\<lambda>(fixed, f). \<not> fixed) (zip m fs)))"
proof -
  have "map snd (filter fst (zip (map Not m) fs)) =
          map snd (filter (\<lambda>(fixed, f). \<not> fixed) (zip m fs))"
    using assms(4) by (induction m fs rule: list_induct2) auto
  then show ?thesis
    using assms by (simp add: fmax_def bind_err_def get_forces_def mask_select_def)
qed

text \<open>
  C1. A row with two constraints, the first with the mask \<open>[True, False]\<close>, and the
  forces \<open>(3, 0, 0)\<close> and \<open>(1, 0, 0)\<close>: line 114 takes the first constraint and line
  116 applies its mask, which overwrites the unmasked forces of line 113. \<open>fmax\<close> is
  \<open>1\<close>, the magnitude of the force on the second atom, while the maximum over the
  unmasked forces is \<open>3\<close>.
\<close>

theorem fmax_two_constraints_masked:
  "fmax \<lparr>row_id = 1, pbc = (False, False, False),
         cell = ((1, 0, 0), (0, 1, 0), (0, 0, 1)),
         forces = Some [(3, 0, 0), (1, 0, 0)],
         constraints = Some (Some [\<lparr>mask = Some [True, False], indices = None\<rparr>,
                                    \<lparr>mask = None, indices = Some [0]\<rparr>]),
         key_value_pairs = None\<rparr> = Inr (VFloat (Finite 1))
   \<and> max_norm [(3, 0, 0), (1, 0, 0)] = Inr (VFloat (Finite 3))"
proof -
  have "sqrt 9 = 3" using sqrt_square_nonneg [of 3] by simp
  then show ?thesis
    by (simp add: fmax_def bind_err_def get_forces_def mask_select_def max_norm_def sumsq_def)
qed

text \<open>
  C7, as amended. The size accessor returns the empty string when no axis is periodic;
  the Euclidean norm of the periodic cell vector when exactly one axis is periodic; the
  norm of the cross product of the two periodic cell vectors, taken in the order of the
  axes, when exactly two are; and the absolute value of the determinant of the cell
  matrix when all three are.
\<close>

theorem size_col_spec:
  assumes "cell d = (a, b, c)"
  shows "(pbc d = (False, False, False) \<longrightarrow> size_col d = Inr (VStr ''''))
    \<and> (pbc d = (True, False, False) \<longrightarrow> size_col d = Inr (VFloat (Finite (norm3 a))))
    \<and> (pbc d = (False, True, False) \<longrightarrow> size_col d = Inr (VFloat (Finite (norm3 b))))
    \<and> (pbc d = (False, False, True) \<longrightarrow> size_col d = Inr (VFloat (Finite (norm3 c))))
    \<and> (pbc d = (True, True, False) \<longrightarrow>
         size_col d = Inr (VFloat (Finite (norm3 (cross3 a b)))))
    \<and> (pbc d = (True, False, True) \<longrightarrow>
         size_col d = Inr (VFloat (Finite (norm3 (cross3 a c)))))
    \<and> (pbc d = (False, True, True) \<longrightarrow>
         size_col d = Inr (VFloat (Finite (norm3 (cross3 b c)))))
    \<and> (pbc d = (True, True, True) \<longrightarrow>
         size_col d = Inr (VFloat (Finite \<bar>det3 (a, b, c)\<bar>)))"
  using assms by (simp add: size_col_def periodic_rows_def)

theorem size_col_spec_witness:
  "size_col \<lparr>row_id = 1, pbc = (False, False, False),
             cell = ((2, 0, 0), (0, 1, 0), (0, 0, 1)), forces = None,
             constraints = None, key_value_pairs = None\<rparr> = Inr (VStr '''')
   \<and> size_col \<lparr>row_id = 1, pbc = (True, False, False),
             cell = ((2, 0, 0), (0, 1, 0), (0, 0, 1)), forces = None,
             constraints = None, key_value_pairs = None\<rparr> = Inr (VFloat (Finite 2))
   \<and> size_col \<lparr>row_id = 1, pbc = (True, True, False),
             cell = ((2, 0, 0), (0, 3, 0), (0, 0, 1)), forces = None,
             constraints = None, key_value_pairs = None\<rparr> = Inr (VFloat (Finite 6))
   \<and> size_col \<lparr>row_id = 1, pbc = (True, True, True),
             cell = ((1, 0, 0), (0, 2, 0), (0, 0, 3)), forces = None,
             constraints = None, key_value_pairs = None\<rparr> = Inr (VFloat (Finite 6))"
proof -
  have s4: "sqrt 4 = 2" using sqrt_square_nonneg [of 2] by simp
  have s36: "sqrt 36 = 6" using sqrt_square_nonneg [of 6] by simp
  show ?thesis
    using
      size_col_spec [of "\<lparr>row_id = 1, pbc = (False, False, False),
             cell = ((2, 0, 0), (0, 1, 0), (0, 0, 1)), forces = None,
             constraints = None, key_value_pairs = None\<rparr>" "(2, 0, 0)" "(0, 1, 0)" "(0, 0, 1)"]
      size_col_spec [of "\<lparr>row_id = 1, pbc = (True, False, False),
             cell = ((2, 0, 0), (0, 1, 0), (0, 0, 1)), forces = None,
             constraints = None, key_value_pairs = None\<rparr>" "(2, 0, 0)" "(0, 1, 0)" "(0, 0, 1)"]
      size_col_spec [of "\<lparr>row_id = 1, pbc = (True, True, False),
             cell = ((2, 0, 0), (0, 3, 0), (0, 0, 1)), forces = None,
             constraints = None, key_value_pairs = None\<rparr>" "(2, 0, 0)" "(0, 3, 0)" "(0, 0, 1)"]
      size_col_spec [of "\<lparr>row_id = 1, pbc = (True, True, True),
             cell = ((1, 0, 0), (0, 2, 0), (0, 0, 3)), forces = None,
             constraints = None, key_value_pairs = None\<rparr>" "(1, 0, 0)" "(0, 2, 0)" "(0, 0, 3)"]
    by (simp add: norm3_def cross3_def det3_def sumsq_def s4 s36)
qed

text \<open>
  Without a periodic axis the accessor returns the empty string, which is neither the
  integer nor the float zero and is printed as an empty cell.
\<close>

theorem size_col_spec_counterexample:
  "size_col \<lparr>row_id = 1, pbc = (False, False, False),
             cell = ((2, 0, 0), (0, 1, 0), (0, 0, 1)), forces = None,
             constraints = None, key_value_pairs = None\<rparr> = Inr (VStr '''')
   \<and> VStr '''' \<noteq> VInt 0 \<and> VStr '''' \<noteq> VFloat (Finite 0)
   \<and> render_value (VStr '''') = '''' \<and> render_value (VInt 0) = ''0''
   \<and> render_value (VFloat (Finite 0)) = ''0.000''"
  by (simp add: size_col_def str_int_def str_nat.simps digit_char_def fmt_3f_def
      round_half_even_def)

text \<open>The two examples of the specification, as they are printed.\<close>

lemma size_examples_rendered:
  "map_sum id render_value (size_col \<lparr>row_id = 1, pbc = (True, False, False),
             cell = ((2, 0, 0), (0, 1, 0), (0, 0, 1)), forces = None,
             constraints = None, key_value_pairs = None\<rparr>) = Inr ''2.000''"
  "map_sum id render_value (size_col \<lparr>row_id = 1, pbc = (True, True, True),
             cell = ((1, 0, 0), (0, 2, 0), (0, 0, 3)), forces = None,
             constraints = None, key_value_pairs = None\<rparr>) = Inr ''6.000''"
proof -
  have s4: "sqrt 4 = 2" using sqrt_square_nonneg [of 2] by simp
  show "map_sum id render_value (size_col \<lparr>row_id = 1, pbc = (True, False, False),
             cell = ((2, 0, 0), (0, 1, 0), (0, 0, 1)), forces = None,
             constraints = None, key_value_pairs = None\<rparr>) = Inr ''2.000''"
    by (simp add: size_col_def periodic_rows_def norm3_def sumsq_def s4 fmt_3f_def
        round_half_even_def str_nat.simps digit_char_def)
  show "map_sum id render_value (size_col \<lparr>row_id = 1, pbc = (True, True, True),
             cell = ((1, 0, 0), (0, 2, 0), (0, 0, 3)), forces = None,
             constraints = None, key_value_pairs = None\<rparr>) = Inr ''6.000''"
    by (simp add: size_col_def periodic_rows_def det3_def fmt_3f_def
        round_half_even_def str_nat.simps digit_char_def)
qed

section \<open>run\<close>

text \<open>
  C9. When the selection returns no rows, \<open>run\<close> does nothing but print the count line
  of \<open>--count\<close>, if that option is given: no line of the table (no header either), no
  column line, no writer opened and nothing written, whatever the extract template and
  the verbosity, and no exception.
\<close>

theorem run_no_records:
  "run ext opts [] verbosity =
     (if opt_count opts then [CountLine (plural ext 0 ''row'')] else [], None)"
  by (simp add: run_def)

theorem run_no_records_witness:
  "run \<lparr>plural = (\<lambda>n w. str_nat n @ '' '' @ w @ (if n = 1 then [] else ''s'')), other_accessors = (\<lambda>col. None),
        index_filename = (\<lambda>t i. Inr (t @ str_nat i))\<rparr>
       \<lparr>opt_count = False, opt_list_columns = False, opt_columns = None,
        opt_include_all = False, opt_sort = None, opt_uniq = False,
        opt_extract = Some ''out-%03d.xyz'', opt_wiki_table = False, opt_quiet = False,
        opt_verbose = True\<rparr> [] 2 = ([], None)"
  using run_no_records [of "\<lparr>plural = (\<lambda>n w. str_nat n @ '' '' @ w @ (if n = 1 then [] else ''s'')),
        other_accessors = (\<lambda>col. None), index_filename = (\<lambda>t i. Inr (t @ str_nat i))\<rparr>"
       "\<lparr>opt_count = False, opt_list_columns = False, opt_columns = None,
        opt_include_all = False, opt_sort = None, opt_uniq = False,
        opt_extract = Some ''out-%03d.xyz'', opt_wiki_table = False, opt_quiet = False,
        opt_verbose = True\<rparr>" 2]
  by simp

text \<open>
  The column specification that lines 262-268 build from the keys of the rows resolves
  when no key holds a comma and the first key is not empty and does not start with \<open>-\<close>.
\<close>

lemma split_on_not_Nil: "split_on c s \<noteq> []"
  by (induction s) (auto simp: Let_def)

lemma split_on_free: "c \<notin> set t \<Longrightarrow> split_on c t = [t]"
  by (induction t) (auto simp: Let_def)

lemma split_on_append:
  "c \<notin> set t \<Longrightarrow> split_on c (t @ c # s) = t # split_on c s"
  by (induction t) (auto simp: Let_def)

lemma split_on_join:
  assumes "ts \<noteq> []" and "\<forall>t \<in> set ts. c \<notin> set t"
  shows "split_on c (join [c] ts) = ts"
  using assms
proof (induction "[c]" ts rule: join.induct)
  case 1
  then show ?case by simp
next
  case (2 x)
  then show ?case by (simp add: split_on_free)
next
  case (3 x y ys)
  then show ?case by (simp add: split_on_append)
qed

lemma resolve_columns_keys:
  assumes "\<forall>k \<in> set keys. CHR '','' \<notin> set k"
    and "keys \<noteq> [] \<longrightarrow> hd keys \<noteq> [] \<and> hd (hd keys) \<noteq> CHR ''-''"
  shows "\<exists>cs. resolve_columns (Some (join '','' (map (\<lambda>key. CHR ''+'' # key) keys))) = Inr cs"
proof (cases keys)
  case Nil
  then show ?thesis by (simp add: resolve_columns_def)
next
  case (Cons k ks)
  let ?toks = "k # map (\<lambda>key. CHR ''+'' # key) ks"
  have j: "join '','' (map (\<lambda>key. CHR ''+'' # key) keys) = CHR ''+'' # join '','' ?toks"
    using Cons by (cases ks) simp_all
  have free: "\<forall>t \<in> set ?toks. CHR '','' \<notin> set t"
    using assms(1) Cons by auto
  have sp: "split_on CHR '','' (join '','' ?toks) = ?toks"
    using split_on_join [of ?toks "CHR '',''"] free by simp
  have ok: "\<forall>t \<in> set ?toks. t \<noteq> [] \<and> hd t \<noteq> CHR ''-''"
    using assms(2) Cons by auto
  have r: "resolve_columns (Some (CHR ''+'' # join '','' ?toks)) =
            process_tokens default_columns (split_on CHR '','' (join '','' ?toks))"
    by (simp add: resolve_columns_def)
  show ?thesis
    unfolding j r sp using process_tokens_additions [OF ok] by blast
qed

text \<open>
  C10, as amended. For a non-empty selection with \<open>--list-columns\<close> and \<open>--quiet\<close> (and
  no \<open>--verbose\<close>, so that the verbosity is 0), without \<open>--count\<close>, and with keys from
  which the column specification resolves: \<open>format\<close> is not called, nothing is printed,
  and reading \<open>columns\<close> at line 274 raises UnboundLocalError.
\<close>

theorem run_list_columns_quiet:
  assumes "selected \<noteq> []" and "opt_list_columns opts" and "\<not> opt_count opts"
    and "opt_quiet opts" and "\<not> opt_verbose opts"
    and "\<forall>k \<in> set (collect_keys [] selected). CHR '','' \<notin> set k"
    and "collect_keys [] selected \<noteq> [] \<longrightarrow>
           hd (collect_keys [] selected) \<noteq> [] \<and> hd (hd (collect_keys [] selected)) \<noteq> CHR ''-''"
  shows "verbosity_of opts = 0
    \<and> run ext opts selected (verbosity_of opts) = ([], Some UnboundLocalError)"
proof -
  have v: "verbosity_of opts = 0"
    using assms(4,5) by (simp add: verbosity_of_def)
  obtain cs where
    "resolve_columns (Some (join '','' (map (\<lambda>key. CHR ''+'' # key) (collect_keys [] selected))))
       = Inr cs"
    using resolve_columns_keys [OF assms(6,7)] by blast
  then show ?thesis
    using assms(1,2,3) v by (simp add: run_def Formatter_init_def bind_err_def)
qed

theorem run_list_columns_quiet_witness:
  "run \<lparr>plural = (\<lambda>n w. str_nat n @ '' '' @ w @ (if n = 1 then [] else ''s'')), other_accessors = (\<lambda>col. None),
        index_filename = (\<lambda>t i. Inr (t @ str_nat i))\<rparr>
       \<lparr>opt_count = False, opt_list_columns = True, opt_columns = None,
        opt_include_all = False, opt_sort = None, opt_uniq = False,
        opt_extract = None, opt_wiki_table = False, opt_quiet = True,
        opt_verbose = False\<rparr>
       [\<lparr>row_id = 1, pbc = (False, False, False),
         cell = ((1, 0, 0), (0, 1, 0), (0, 0, 1)), forces = None,
         constraints = None, key_value_pairs = Some [(''tag'', ''x'')]\<rparr>] 0
     = ([], Some UnboundLocalError)"
  using run_list_columns_quiet [of
       "[\<lparr>row_id = 1, pbc = (False, False, False),
         cell = ((1, 0, 0), (0, 1, 0), (0, 0, 1)), forces = None,
         constraints = None, key_value_pairs = Some [(''tag'', ''x'')]\<rparr>]"
       "\<lparr>opt_count = False, opt_list_columns = True, opt_columns = None,
        opt_include_all = False, opt_sort = None, opt_uniq = False,
        opt_extract = None, opt_wiki_table = False, opt_quiet = True,
        opt_verbose = False\<rparr>"
       "\<lparr>plural = (\<lambda>n w. str_nat n @ '' '' @ w @ (if n = 1 then [] else ''s'')), other_accessors = (\<lambda>col. None),
        index_filename = (\<lambda>t i. Inr (t @ str_nat i))\<rparr>"]
  by (simp add: verbosity_of_def)

text \<open>
  With \<open>--count\<close> as well, \<open>run\<close> prints the number of rows and returns at line 256,
  without an exception.
\<close>

theorem run_list_columns_quiet_counterexample:
  "run \<lparr>plural = (\<lambda>n w. str_nat n @ '' '' @ w @ (if n = 1 then [] else ''s'')), other_accessors = (\<lambda>col. None),
        index_filename = (\<lambda>t i. Inr (t @ str_nat i))\<rparr>
       \<lparr>opt_count = True, opt_list_columns = True, opt_columns = None,
        opt_include_all = False, opt_sort = None, opt_uniq = False,
        opt_extract = None, opt_wiki_table = False, opt_quiet = True,
        opt_verbose = False\<rparr>
       [\<lparr>row_id = 1, pbc = (False, False, False),
         cell = ((1, 0, 0), (0, 1, 0), (0, 0, 1)), forces = None,
         constraints = None, key_value_pairs = Some [(''tag'', ''x'')]\<rparr>]
       (verbosity_of \<lparr>opt_count = True, opt_list_columns = True, opt_columns = None,
        opt_include_all = False, opt_sort = None, opt_uniq = False,
        opt_extract = None, opt_wiki_table = False, opt_quiet = True,
        opt_verbose = False\<rparr>)
     = ([CountLine ''1 row''], None)"
  by (simp add: run_def verbosity_of_def str_nat.simps digit_char_def)

section \<open>Collapsing repeated rows\<close>

lemma length_str_nat_pos: "0 < length (str_nat n)"
  by (subst str_nat.simps) simp

lemma length_str_nat_mono: "n \<le> m \<Longrightarrow> length (str_nat n) \<le> length (str_nat m)"
proof (induction n arbitrary: m rule: str_nat.induct)
  case (1 n)
  show ?case
  proof (cases "n < 10")
    case True
    have "length (str_nat n) = 1" using True by (subst str_nat.simps) simp
    then show ?thesis using length_str_nat_pos [of m] by linarith
  next
    case False
    then have m: "\<not> m < 10" using "1.prems" by simp
    have "n div 10 \<le> m div 10" using "1.prems" by (rule div_le_mono)
    then have "length (str_nat (n div 10)) \<le> length (str_nat (m div 10))"
      using "1.IH" False by simp
    moreover have "length (str_nat n) = Suc (length (str_nat (n div 10)))"
      using False by (subst str_nat.simps) simp
    moreover have "length (str_nat m) = Suc (length (str_nat (m div 10)))"
      using m by (subst str_nat.simps) simp
    ultimately show ?thesis by simp
  qed
qed

lemma mono_length_str_nat: "mono (\<lambda>n. length (str_nat n))"
  by (rule monoI) (rule length_str_nat_mono)

text \<open>The last width after the groups \<open>gs\<close> have gone to the output.\<close>

lemma fold_count_width:
  assumes "gs \<noteq> []"
  shows "fold (\<lambda>g w. max w (length (str_nat (snd g)))) gs w =
           max w (length (str_nat (Max (snd ` set gs))))"
  using assms
proof (induction gs arbitrary: w rule: list_nonempty_induct)
  case (single g)
  then show ?case by simp
next
  case (cons g gs)
  have "length (str_nat (Max (snd ` set (g # gs)))) =
          max (length (str_nat (snd g))) (length (str_nat (Max (snd ` set gs))))"
    using cons.hyps
    by (simp add: max_of_mono [OF mono_length_str_nat])
  then show ?case
    using cons.IH by (simp add: max.assoc)
qed

lemma emit_group_eq:
  "ws \<noteq> [] \<Longrightarrow>
   emit_group r n (out, ws) =
     Inr (out @ [r @ [str_nat n]],
          ws[length ws - 1 := max (last ws) (length (str_nat n))])"
  by (simp add: emit_group_def)

lemma last_list_update_last:
  "ws \<noteq> [] \<Longrightarrow> last (ws[length ws - Suc 0 := v]) = v"
  by (simp add: last_conv_nth)

lemma uniq_loop_eq:
  assumes "ws \<noteq> []"
  shows "uniq_loop r n table (out, ws) =
     Inr (out @ map (\<lambda>(row, k). row @ [str_nat k])
                  ((r, n + length (takeWhile (\<lambda>y. y = r) table)) #
                   run_lengths (dropWhile (\<lambda>y. y = r) table)),
          ws[length ws - 1 :=
             fold (\<lambda>g w. max w (length (str_nat (snd g))))
               ((r, n + length (takeWhile (\<lambda>y. y = r) table)) #
                run_lengths (dropWhile (\<lambda>y. y = r) table)) (last ws)])"
  using assms
proof (induction table arbitrary: r n out ws)
  case Nil
  then show ?case by (simp add: emit_group_eq)
next
  case (Cons row table)
  show ?case
  proof (cases "row = r")
    case True
    then show ?thesis using Cons.IH [OF Cons.prems, of r "Suc n" out] by simp
  next
    case False
    let ?ws = "ws[length ws - 1 := max (last ws) (length (str_nat n))]"
    have ne: "?ws \<noteq> []" using Cons.prems by simp
    show ?thesis
      using False Cons.IH [OF ne, of row 1 "out @ [r @ [str_nat n]]"] Cons.prems
      by (simp add: emit_group_eq bind_err_def last_list_update_last)
  qed
qed

lemma run_lengths_concat:
  "concat (map (\<lambda>(row, n). replicate n row) (run_lengths xs)) = xs"
proof (induction xs rule: run_lengths.induct)
  case 1
  then show ?case by simp
next
  case (2 x xs)
  have "replicate (length (takeWhile (\<lambda>y. y = x) xs)) x = takeWhile (\<lambda>y. y = x) xs"
    by (induction xs) auto
  then show ?case using 2 by simp
qed

lemma run_lengths_Nil_iff: "run_lengths xs = [] \<longleftrightarrow> xs = []"
  by (cases xs) auto

lemma run_lengths_hd:
  "run_lengths xs \<noteq> [] \<Longrightarrow> fst (hd (run_lengths xs)) = hd xs"
  by (cases xs) auto

lemma run_lengths_distinct_adj: "distinct_adj (map fst (run_lengths xs))"
proof (induction xs rule: run_lengths.induct)
  case 1
  then show ?case by simp
next
  case (2 x xs)
  let ?rest = "dropWhile (\<lambda>y. y = x) xs"
  have "?rest \<noteq> [] \<Longrightarrow> hd ?rest \<noteq> x"
    using hd_dropWhile [of "\<lambda>y. y = x" xs] by simp
  moreover have "run_lengths ?rest \<noteq> [] \<Longrightarrow> ?rest \<noteq> []"
    using run_lengths_Nil_iff [of ?rest] by blast
  ultimately show ?case
    using 2 run_lengths_hd [of ?rest]
    by (auto simp: distinct_adj_Cons hd_map)
qed

lemma run_lengths_pos: "list_all (\<lambda>(row, n). 0 < n) (run_lengths xs)"
  by (induction xs rule: run_lengths.induct) auto

section \<open>The cells, widths and signs that the loops compute\<close>

lemma fatal_Inl: "f d = Inl e \<Longrightarrow> \<not> fatal f d \<Longrightarrow> e = AttributeError"
  by (simp add: fatal_def)

lemma cell_text_Inl: "f d = Inl e \<Longrightarrow> cell_text f d = []"
  by (simp add: cell_text_def)

lemma cell_text_Inr: "f d = Inr v \<Longrightarrow> cell_text f d = render_value v"
  by (simp add: cell_text_def)

lemma textual_Inl: "f d = Inl e \<Longrightarrow> \<not> textual f d"
  by (simp add: textual_def)

lemma textual_Inr: "f d = Inr v \<Longrightarrow> textual f d = is_text v"
  by (simp add: textual_def)

text \<open>
  The inner loop, when no accessor raises an exception other than AttributeError: the
  row gets one cell for each accessor, the width of each column it passes grows to the
  length of its cell, and the sign of a column with a textual value becomes \<open>-1\<close>.
\<close>

lemma row_cells_result:
  assumes "\<forall>f \<in> set fs. \<not> fatal f d"
    and "i + length fs \<le> length ws" and "length sg = length ws"
  shows "\<exists>ws' sg'.
      row_cells i fs d (row, ws, sg) = Inr (row @ map (\<lambda>f. cell_text f d) fs, ws', sg')
    \<and> length ws' = length ws \<and> length sg' = length sg
    \<and> (\<forall>k < length ws. ws' ! k =
          (if i \<le> k \<and> k < i + length fs
           then max (ws ! k) (length (cell_text (fs ! (k - i)) d)) else ws ! k))
    \<and> (\<forall>k < length sg. sg' ! k =
          (if i \<le> k \<and> k < i + length fs \<and> textual (fs ! (k - i)) d
           then - 1 else sg ! k))"
  using assms
proof (induction fs arbitrary: i row ws sg)
  case Nil
  then show ?case by simp
next
  case (Cons f fs)
  have nf: "\<forall>g \<in> set fs. \<not> fatal g d" and nff: "\<not> fatal f d"
    using Cons.prems(1) by simp_all
  have i: "i < length ws" and i': "Suc i + length fs \<le> length ws"
    using Cons.prems(2) by simp_all
  show ?case
  proof (cases "f d")
    case (Inl e)
    then have e: "e = AttributeError" using nff by (rule fatal_Inl)
    have c: "cell_text f d = []" using Inl by (rule cell_text_Inl)
    have t: "\<not> textual f d" using Inl by (rule textual_Inl)
    obtain ws' sg' where
      r: "row_cells (Suc i) fs d (row @ [[]], ws, sg) =
            Inr ((row @ [[]]) @ map (\<lambda>f. cell_text f d) fs, ws', sg')"
      and l: "length ws' = length ws" "length sg' = length sg"
      and w: "\<forall>k < length ws. ws' ! k =
          (if Suc i \<le> k \<and> k < Suc i + length fs
           then max (ws ! k) (length (cell_text (fs ! (k - Suc i)) d)) else ws ! k)"
      and s: "\<forall>k < length sg. sg' ! k =
          (if Suc i \<le> k \<and> k < Suc i + length fs \<and> textual (fs ! (k - Suc i)) d
           then - 1 else sg ! k)"
      using Cons.IH [OF nf i' Cons.prems(3), of "row @ [[]]"] by blast
    have eq: "row_cells i (f # fs) d (row, ws, sg) =
            Inr (row @ map (\<lambda>f. cell_text f d) (f # fs), ws', sg')"
      using Inl e r c by simp
    have w': "\<forall>k < length ws. ws' ! k =
          (if i \<le> k \<and> k < i + length (f # fs)
           then max (ws ! k) (length (cell_text ((f # fs) ! (k - i)) d)) else ws ! k)"
    proof (intro allI impI)
      fix k assume k: "k < length ws"
      consider "k < i" | "k = i" | "i < k" by linarith
      then show "ws' ! k =
          (if i \<le> k \<and> k < i + length (f # fs)
           then max (ws ! k) (length (cell_text ((f # fs) ! (k - i)) d)) else ws ! k)"
      proof cases
        case 1 then show ?thesis using w k by simp
      next
        case 2 then show ?thesis using w k c by simp
      next
        case 3
        then have "(f # fs) ! (k - i) = fs ! (k - Suc i)" by (simp add: nth_Cons')
        then show ?thesis using w k 3 by auto
      qed
    qed
    have s': "\<forall>k < length sg. sg' ! k =
          (if i \<le> k \<and> k < i + length (f # fs) \<and> textual ((f # fs) ! (k - i)) d
           then - 1 else sg ! k)"
    proof (intro allI impI)
      fix k assume k: "k < length sg"
      consider "k < i" | "k = i" | "i < k" by linarith
      then show "sg' ! k =
          (if i \<le> k \<and> k < i + length (f # fs) \<and> textual ((f # fs) ! (k - i)) d
           then - 1 else sg ! k)"
      proof cases
        case 1 then show ?thesis using s k by simp
      next
        case 2 then show ?thesis using s k t by simp
      next
        case 3
        then have "(f # fs) ! (k - i) = fs ! (k - Suc i)" by (simp add: nth_Cons')
        then show ?thesis using s k 3 by auto
      qed
    qed
    show ?thesis using eq l w' s' by blast
  next
    case (Inr v)
    let ?s = "render_value v"
    let ?sg1 = "if is_text v then sg[i := - 1] else sg"
    let ?ws1 = "if ws ! i < length ?s then ws[i := length ?s] else ws"
    have c: "cell_text f d = ?s" using Inr by (rule cell_text_Inr)
    have t: "textual f d = is_text v" using Inr by (rule textual_Inr)
    have lw1: "length ?ws1 = length ws" and ls1: "length ?sg1 = length sg" by simp_all
    have w1: "\<forall>k < length ws. ?ws1 ! k = (if k = i then max (ws ! i) (length ?s) else ws ! k)"
      by (auto simp: nth_list_update)
    have s1: "\<forall>k < length sg. ?sg1 ! k = (if k = i \<and> is_text v then - 1 else sg ! k)"
      by (auto simp: nth_list_update)
    have i1: "Suc i + length fs \<le> length ?ws1" using i' lw1 by simp
    have l1: "length ?sg1 = length ?ws1" using Cons.prems(3) by simp
    obtain ws' sg' where
      r: "row_cells (Suc i) fs d (row @ [?s], ?ws1, ?sg1) =
            Inr ((row @ [?s]) @ map (\<lambda>f. cell_text f d) fs, ws', sg')"
      and l: "length ws' = length ?ws1" "length sg' = length ?sg1"
      and w: "\<forall>k < length ?ws1. ws' ! k =
          (if Suc i \<le> k \<and> k < Suc i + length fs
           then max (?ws1 ! k) (length (cell_text (fs ! (k - Suc i)) d)) else ?ws1 ! k)"
      and s: "\<forall>k < length ?sg1. sg' ! k =
          (if Suc i \<le> k \<and> k < Suc i + length fs \<and> textual (fs ! (k - Suc i)) d
           then - 1 else ?sg1 ! k)"
      using Cons.IH [OF nf i1 l1, of "row @ [?s]"] by blast
    have eq: "row_cells i (f # fs) d (row, ws, sg) =
            Inr (row @ map (\<lambda>f. cell_text f d) (f # fs), ws', sg')"
      using Inr r c i Cons.prems(3) by (simp add: Let_def)
    have w': "\<forall>k < length ws. ws' ! k =
          (if i \<le> k \<and> k < i + length (f # fs)
           then max (ws ! k) (length (cell_text ((f # fs) ! (k - i)) d)) else ws ! k)"
    proof (intro allI impI)
      fix k assume k: "k < length ws"
      then have k1: "k < length ?ws1" using lw1 by simp
      have wk: "ws' ! k =
          (if Suc i \<le> k \<and> k < Suc i + length fs
           then max (?ws1 ! k) (length (cell_text (fs ! (k - Suc i)) d)) else ?ws1 ! k)"
        using w k1 by blast
      have w1k: "?ws1 ! k = (if k = i then max (ws ! i) (length ?s) else ws ! k)"
        using w1 k by blast
      consider "k < i" | "k = i" | "i < k" by linarith
      then show "ws' ! k =
          (if i \<le> k \<and> k < i + length (f # fs)
           then max (ws ! k) (length (cell_text ((f # fs) ! (k - i)) d)) else ws ! k)"
      proof cases
        case 1 then show ?thesis unfolding wk w1k by simp
      next
        case 2 then show ?thesis unfolding wk w1k using c by simp
      next
        case 3
        then have "(f # fs) ! (k - i) = fs ! (k - Suc i)" by (simp add: nth_Cons')
        then show ?thesis unfolding wk w1k using 3 by auto
      qed
    qed
    have s': "\<forall>k < length sg. sg' ! k =
          (if i \<le> k \<and> k < i + length (f # fs) \<and> textual ((f # fs) ! (k - i)) d
           then - 1 else sg ! k)"
    proof (intro allI impI)
      fix k assume k: "k < length sg"
      then have k1: "k < length ?sg1" using ls1 by simp
      have sk: "sg' ! k =
          (if Suc i \<le> k \<and> k < Suc i + length fs \<and> textual (fs ! (k - Suc i)) d
           then - 1 else ?sg1 ! k)"
        using s k1 by blast
      have s1k: "?sg1 ! k = (if k = i \<and> is_text v then - 1 else sg ! k)"
        using s1 k by blast
      consider "k < i" | "k = i" | "i < k" by linarith
      then show "sg' ! k =
          (if i \<le> k \<and> k < i + length (f # fs) \<and> textual ((f # fs) ! (k - i)) d
           then - 1 else sg ! k)"
      proof cases
        case 1 then show ?thesis unfolding sk s1k by simp
      next
        case 2 then show ?thesis unfolding sk s1k using t by simp
      next
        case 3
        then have "(f # fs) ! (k - i) = fs ! (k - Suc i)" by (simp add: nth_Cons')
        then show ?thesis unfolding sk s1k using 3 by auto
      qed
    qed
    have lw': "length ws' = length ws" using l(1) by simp
    have ls': "length sg' = length sg" using l(2) by simp
    show ?thesis using eq lw' ls' w' s' by blast
  qed
qed

text \<open>
  The outer loop under the same condition: one row of cells for each record, in order;
  the width of a column is the running maximum over its cells, and its sign is \<open>-1\<close> as
  soon as one of its values is textual.
\<close>

lemma table_rows_result:
  assumes "\<forall>d \<in> set dcts. \<forall>f \<in> set fs. \<not> fatal f d"
    and "length fs \<le> length ws" and "length sg = length ws"
  shows "\<exists>ws' sg'.
      table_rows fs dcts (tbl, ws, sg, is) =
        Inr (tbl @ map (\<lambda>d. map (\<lambda>f. cell_text f d) fs) dcts, ws', sg', is @ map row_id dcts)
    \<and> length ws' = length ws \<and> length sg' = length sg
    \<and> (\<forall>k < length ws. ws' ! k =
          (if k < length fs
           then fold max (map (\<lambda>d. length (cell_text (fs ! k) d)) dcts) (ws ! k)
           else ws ! k))
    \<and> (\<forall>k < length sg. sg' ! k =
          (if k < length fs \<and> (\<exists>d \<in> set dcts. textual (fs ! k) d) then - 1 else sg ! k))"
  using assms
proof (induction dcts arbitrary: tbl ws sg "is")
  case Nil
  then show ?case by simp
next
  case (Cons d dcts)
  have nf: "\<forall>f \<in> set fs. \<not> fatal f d"
    and nfs: "\<forall>d \<in> set dcts. \<forall>f \<in> set fs. \<not> fatal f d"
    using Cons.prems(1) by simp_all
  have b: "0 + length fs \<le> length ws" using Cons.prems(2) by simp
  obtain ws1 sg1 where
    r1: "row_cells 0 fs d ([], ws, sg) = Inr ([] @ map (\<lambda>f. cell_text f d) fs, ws1, sg1)"
    and l1: "length ws1 = length ws" "length sg1 = length sg"
    and w1: "\<forall>k < length ws. ws1 ! k =
          (if 0 \<le> k \<and> k < 0 + length fs
           then max (ws ! k) (length (cell_text (fs ! (k - 0)) d)) else ws ! k)"
    and s1: "\<forall>k < length sg. sg1 ! k =
          (if 0 \<le> k \<and> k < 0 + length fs \<and> textual (fs ! (k - 0)) d
           then - 1 else sg ! k)"
    using row_cells_result [OF nf b Cons.prems(3), of "[]"] by blast
  have b1: "length fs \<le> length ws1" using Cons.prems(2) l1 by simp
  have e1: "length sg1 = length ws1" using Cons.prems(3) l1 by simp
  obtain ws' sg' where
    r: "table_rows fs dcts (tbl @ [map (\<lambda>f. cell_text f d) fs], ws1, sg1, is @ [row_id d]) =
        Inr ((tbl @ [map (\<lambda>f. cell_text f d) fs]) @
               map (\<lambda>d. map (\<lambda>f. cell_text f d) fs) dcts, ws', sg',
             (is @ [row_id d]) @ map row_id dcts)"
    and l: "length ws' = length ws1" "length sg' = length sg1"
    and w: "\<forall>k < length ws1. ws' ! k =
          (if k < length fs
           then fold max (map (\<lambda>d. length (cell_text (fs ! k) d)) dcts) (ws1 ! k)
           else ws1 ! k)"
    and s: "\<forall>k < length sg1. sg' ! k =
          (if k < length fs \<and> (\<exists>d \<in> set dcts. textual (fs ! k) d) then - 1 else sg1 ! k)"
    using Cons.IH [OF nfs b1 e1, of "tbl @ [map (\<lambda>f. cell_text f d) fs]" "is @ [row_id d]"]
    by blast
  have eq: "table_rows fs (d # dcts) (tbl, ws, sg, is) =
        Inr (tbl @ map (\<lambda>d. map (\<lambda>f. cell_text f d) fs) (d # dcts), ws', sg',
             is @ map row_id (d # dcts))"
    using r1 r by simp
  have lw: "length ws' = length ws" using l(1) l1(1) by simp
  have ls: "length sg' = length sg" using l(2) l1(2) by simp
  have w': "\<forall>k < length ws. ws' ! k =
          (if k < length fs
           then fold max (map (\<lambda>d. length (cell_text (fs ! k) d)) (d # dcts)) (ws ! k)
           else ws ! k)"
  proof (intro allI impI)
    fix k assume k: "k < length ws"
    have a: "ws' ! k =
          (if k < length fs
           then fold max (map (\<lambda>d. length (cell_text (fs ! k) d)) dcts) (ws1 ! k)
           else ws1 ! k)"
      using w k l1(1) by simp
    have b: "ws1 ! k =
          (if k < length fs then max (ws ! k) (length (cell_text (fs ! k) d)) else ws ! k)"
      using w1 k by simp
    show "ws' ! k =
          (if k < length fs
           then fold max (map (\<lambda>d. length (cell_text (fs ! k) d)) (d # dcts)) (ws ! k)
           else ws ! k)"
      unfolding a b by (simp add: max.commute)
  qed
  have s': "\<forall>k < length sg. sg' ! k =
          (if k < length fs \<and> (\<exists>d \<in> set (d # dcts). textual (fs ! k) d)
           then - 1 else sg ! k)"
  proof (intro allI impI)
    fix k assume k: "k < length sg"
    have a: "sg' ! k =
          (if k < length fs \<and> (\<exists>d \<in> set dcts. textual (fs ! k) d) then - 1 else sg1 ! k)"
      using s k l1(2) by simp
    have b: "sg1 ! k = (if k < length fs \<and> textual (fs ! k) d then - 1 else sg ! k)"
      using s1 k by simp
    show "sg' ! k =
          (if k < length fs \<and> (\<exists>d \<in> set (d # dcts). textual (fs ! k) d)
           then - 1 else sg ! k)"
      unfolding a b by auto
  qed
  show ?case using eq lw ls w' s' by blast
qed

text \<open>
  Conversely the loops only finish when every exception was an AttributeError.
\<close>

lemma row_cells_Inr_not_fatal:
  "row_cells i fs d st = Inr st' \<Longrightarrow> f \<in> set fs \<Longrightarrow> \<not> fatal f d"
proof (induction i fs d st arbitrary: st' rule: row_cells.induct)
  case (1 i d st)
  then show ?case by simp
next
  case (2 i g fs d row widths signs)
  show ?case
  proof (cases "g d")
    case (Inl e)
    then have e: "e = AttributeError"
      using "2.prems"(1) by (auto split: if_splits)
    then have "\<not> fatal g d" using Inl by (simp add: fatal_def)
    moreover have "f \<in> set fs \<Longrightarrow> \<not> fatal f d"
      using "2.IH"(1) [OF Inl e] "2.prems"(1) Inl e by simp
    ultimately show ?thesis using "2.prems"(2) by auto
  next
    case (Inr v)
    then have g: "\<not> fatal g d" by (simp add: fatal_def)
    have c1: "\<not> (is_text v \<and> length signs \<le> i)" and c2: "\<not> length widths \<le> i"
      using "2.prems"(1) Inr by (auto split: if_splits)
    have "f \<in> set fs \<Longrightarrow> \<not> fatal f d"
      using "2.IH"(2) [OF Inr c1 c2 refl refl refl] "2.prems"(1) Inr c1 c2
      by (simp add: Let_def)
    then show ?thesis using g "2.prems"(2) by auto
  qed
qed

lemma table_rows_Inr_not_fatal:
  "table_rows fs dcts st = Inr st' \<Longrightarrow> d \<in> set dcts \<Longrightarrow> f \<in> set fs \<Longrightarrow> \<not> fatal f d"
proof (induction fs dcts st arbitrary: st' rule: table_rows.induct)
  case (1 fs st)
  then show ?case by simp
next
  case (2 fs d' ds table widths signs ids)
  obtain row ws1 sg1 where
    r: "row_cells 0 fs d' ([], widths, signs) = Inr (row, ws1, sg1)"
    using "2.prems"(1) by (auto split: sum.splits)
  have t: "table_rows fs ds (table @ [row], ws1, sg1, ids @ [row_id d']) = Inr st'"
    using "2.prems"(1) r by simp
  show ?case
  proof (cases "d = d'")
    case True
    then show ?thesis using row_cells_Inr_not_fatal [OF r "2.prems"(3)] by simp
  next
    case False
    then have "d \<in> set ds" using "2.prems"(2) by simp
    then show ?thesis using "2.IH" [OF r refl refl t _ "2.prems"(3)] by simp
  qed
qed

section \<open>Column widths\<close>

lemma fold_max_zero_iff:
  "fold max xs (a::nat) = 0 \<longleftrightarrow> a = 0 \<and> (\<forall>x \<in> set xs. x = 0)"
  by (induction xs arbitrary: a) auto

lemma longest_cell_zero_iff:
  "longest_cell f dcts = 0 \<longleftrightarrow> (\<forall>d \<in> set dcts. cell_text f d = [])"
  by (simp add: longest_cell_def fold_max_zero_iff)

lemma final_widths_nth:
  "i < length ws \<Longrightarrow> i < length head \<Longrightarrow>
   final_widths ws head ! i = (if ws ! i = 0 then 0 else max (ws ! i) (length (head ! i)))"
  by (simp add: final_widths_def)

lemma uniq_table_widths:
  assumes "uniq_table table ws = Inr (table', ws')" and "ws \<noteq> []"
  shows "length ws' = length ws \<and> (\<forall>k. Suc k < length ws \<longrightarrow> ws' ! k = ws ! k)"
proof (cases table)
  case Nil
  then show ?thesis using assms(1) by (simp add: uniq_table_def)
next
  case (Cons r rest)
  show ?thesis
    using assms(1) uniq_loop_eq [OF assms(2), of r 1 rest "[]"] Cons
    by (auto simp: uniq_table_def)
qed

text \<open>
  What \<open>format\<close> has computed when it reaches line 218, for a formatter with one accessor
  for each column: the loop ran without a fatal exception, and the widths of the data
  columns are those of the loop.
\<close>

lemma format_layout_data_column:
  assumes ok: "format_layout fm dcts opts = Inr L"
    and len: "length (funcs fm) = length (columns fm)"
    and i: "i < length (funcs fm)"
  shows "widths L ! i =
           (if longest_cell (funcs fm ! i) dcts = 0 then 0
            else max (longest_cell (funcs fm ! i) dcts) (length (header L ! i)))
    \<and> header L ! i =
        (if opt_wiki_table opts then ''*'' @ columns fm ! i @ ''*'' else columns fm ! i)
    \<and> signs L ! i = (if \<exists>d \<in> set dcts. textual (funcs fm ! i) d then - 1 else 1)
    \<and> (\<forall>d \<in> set dcts. \<forall>f \<in> set (funcs fm). \<not> fatal f d)"
proof -
  define columns1 where
    "columns1 = (if opt_uniq opts then columns fm @ [''repeat''] else columns fm)"
  define head where
    "head = (if opt_wiki_table opts then map (\<lambda>col. ''*'' @ col @ ''*'') columns1 else columns1)"
  let ?ws0 = "map (\<lambda>col. 0::nat) head" and ?sg0 = "map (\<lambda>col. 1::int) head"
  have lh: "length head = length columns1" by (simp add: head_def)
  have lc: "length (funcs fm) \<le> length columns1"
    and lcu: "opt_uniq opts \<Longrightarrow> length columns1 = Suc (length (funcs fm))"
    using len by (simp_all add: columns1_def)
  have ih: "i < length head" using i lc lh by simp
  obtain table widths1 sg "is" where
    tr: "table_rows (funcs fm) dcts ([], ?ws0, ?sg0, []) = Inr (table, widths1, sg, is)"
    using ok unfolding format_layout_def Let_def columns1_def [symmetric] head_def [symmetric]
    by (auto simp: bind_err_def split: sum.splits)
  obtain sorted where so: "sort_rows columns1 (sort_by fm) table = Inr sorted"
    using ok tr unfolding format_layout_def Let_def columns1_def [symmetric] head_def [symmetric]
    by (auto simp: bind_err_def split: sum.splits)
  obtain table2 widths2 where
    un: "(if opt_uniq opts then uniq_table sorted widths1 else Inr (sorted, widths1)) =
           Inr (table2, widths2)"
    using ok tr so unfolding format_layout_def Let_def columns1_def [symmetric] head_def [symmetric]
    by (auto simp: bind_err_def split: sum.splits)
  have L: "L = \<lparr>header = head, rows = table2, widths = final_widths widths2 head,
                signs = sg, ids = is\<rparr>"
    using ok tr so un
    unfolding format_layout_def Let_def columns1_def [symmetric] head_def [symmetric]
    by (simp add: bind_err_def)
  have nf: "\<forall>d \<in> set dcts. \<forall>f \<in> set (funcs fm). \<not> fatal f d"
    using table_rows_Inr_not_fatal [OF tr] by blast
  have b: "length (funcs fm) \<le> length ?ws0" using lc lh by simp
  obtain ws' sg' where
    r: "table_rows (funcs fm) dcts ([], ?ws0, ?sg0, []) =
          Inr ([] @ map (\<lambda>d. map (\<lambda>f. cell_text f d) (funcs fm)) dcts, ws', sg',
               [] @ map row_id dcts)"
    and l: "length ws' = length ?ws0" "length sg' = length ?sg0"
    and w: "\<forall>k < length ?ws0. ws' ! k =
          (if k < length (funcs fm)
           then fold max (map (\<lambda>d. length (cell_text (funcs fm ! k) d)) dcts) (?ws0 ! k)
           else ?ws0 ! k)"
    and s: "\<forall>k < length ?sg0. sg' ! k =
          (if k < length (funcs fm) \<and> (\<exists>d \<in> set dcts. textual (funcs fm ! k) d)
           then - 1 else ?sg0 ! k)"
    using table_rows_result [OF nf b, of ?sg0 "[]" "[]"] by auto
  have same: "widths1 = ws'" "sg = sg'" using tr r by simp_all
  have w1: "widths1 ! i = longest_cell (funcs fm ! i) dcts"
    using w i ih same by (simp add: longest_cell_def)
  have sgi: "sg ! i = (if \<exists>d \<in> set dcts. textual (funcs fm ! i) d then - 1 else 1)"
    using s i ih same by simp
  have lw1: "length widths1 = length head" using l same by simp
  have w2: "widths2 ! i = widths1 ! i \<and> length widths2 = length widths1"
  proof (cases "opt_uniq opts")
    case True
    have ne: "widths1 \<noteq> []" using lw1 ih by auto
    have "Suc i < length widths1" using lcu [OF True] lw1 lh i by simp
    then show ?thesis using uniq_table_widths [OF _ ne] un True by auto
  next
    case False
    then show ?thesis using un by simp
  qed
  have hd: "head ! i =
        (if opt_wiki_table opts then ''*'' @ columns fm ! i @ ''*'' else columns fm ! i)"
    using i len lc by (auto simp: head_def columns1_def nth_append)
  have "final_widths widths2 head ! i =
          (if widths2 ! i = 0 then 0 else max (widths2 ! i) (length (head ! i)))"
    using final_widths_nth [of i widths2 head] w2 lw1 ih by simp
  then show ?thesis
    using L w1 w2 hd sgi nf by simp
qed

lemma longest_cell_Max:
  assumes "dcts \<noteq> []"
  shows "longest_cell f dcts = Max ((\<lambda>d. length (cell_text f d)) ` set dcts)"
proof -
  let ?ls = "map (\<lambda>d. length (cell_text f d)) dcts"
  have ne: "set ?ls \<noteq> {}" using assms by simp
  have "longest_cell f dcts = Max (set (0 # ?ls))"
    unfolding longest_cell_def by (simp only: Max.set_eq_fold)
  also have "\<dots> = max 0 (Max (set ?ls))"
    using ne by (simp only: list.set Max_insert [OF finite_set ne])
  finally show ?thesis by simp
qed

text \<open>
  The cells of a printed line, by position: the columns of width \<open>0\<close> are left out, every
  other cell is padded to the width of its column on the side that its sign gives.
\<close>

lemma zip3_index:
  "zip ws (zip sgs row) =
     map (\<lambda>k. (ws ! k, sgs ! k, row ! k))
       [0..<min (length ws) (min (length sgs) (length row))]"
  by (rule nth_equalityI) simp_all

lemma line_cells_index:
  "map (\<lambda>(w, sg, s). pad (int w * sg) s)
     (filter (\<lambda>(w, sg, s). 0 < w) (zip ws (zip sgs row))) =
   map (\<lambda>k. pad (int (ws ! k) * sgs ! k) (row ! k))
     (filter (\<lambda>k. 0 < ws ! k) [0..<min (length ws) (min (length sgs) (length row))])"
  unfolding zip3_index by (simp add: filter_map o_def)

lemma format_line_index:
  "format_line wiki ws sgs row =
     (let line = join ''|''
            (map (\<lambda>k. pad (int (ws ! k) * sgs ! k) (row ! k))
               (filter (\<lambda>k. 0 < ws ! k)
                  [0..<min (length ws) (min (length sgs) (length row))]))
      in if wiki then ''|'' @ line @ ''|'' else line)"
  unfolding format_line_def line_cells_index ..

lemma pad_right_justified:
  "pad (int w * 1) s = replicate (w - length s) CHR '' '' @ s"
  by (simp add: pad_def)

lemma pad_left_justified:
  "0 < w \<Longrightarrow> pad (int w * - 1) s = s @ replicate (w - length s) CHR '' ''"
  by (simp add: pad_def)

lemma length_pad:
  "sg = 1 \<or> sg = - 1 \<Longrightarrow> length (pad (int w * sg) s) = max (length s) w"
  by (auto simp: pad_def)

section \<open>Rendered numbers\<close>

lemma is_digit_digit_char: "is_digit (digit_char n)"
  unfolding digit_char_def is_digit_def by (rule nth_mem) simp

lemma str_nat_digits: "list_all is_digit (str_nat n)"
proof (induction n rule: str_nat.induct)
  case (1 n)
  show ?case
  proof (cases "n < 10")
    case True
    then show ?thesis by (subst str_nat.simps) (simp add: is_digit_digit_char)
  next
    case False
    then show ?thesis using 1 by (subst str_nat.simps) (simp add: is_digit_digit_char)
  qed
qed

lemma not_is_digit_point: "\<not> is_digit CHR ''.''" and not_is_digit_minus: "\<not> is_digit CHR ''-''"
  by (simp_all add: is_digit_def)

lemma digits_no_point: "list_all is_digit s \<Longrightarrow> CHR ''.'' \<notin> set s"
  using not_is_digit_point by (auto simp: list_all_iff)

lemma str_int_no_point: "CHR ''.'' \<notin> set (str_int n)"
  using digits_no_point [OF str_nat_digits] by (simp add: str_int_def)

lemma str_int_shape:
  "\<exists>ds. ds \<noteq> [] \<and> list_all is_digit ds \<and> str_int n = (if n < 0 then ''-'' else []) @ ds"
  using str_nat_digits length_str_nat_pos by (auto simp: str_int_def)

lemma fmt_3f_finite:
  "\<exists>whole frac. fmt_3f (Finite x) = (if x < 0 then ''-'' else []) @ whole @ ''.'' @ frac
     \<and> whole \<noteq> [] \<and> list_all is_digit whole \<and> length frac = 3 \<and> list_all is_digit frac"
proof -
  let ?n = "round_half_even (\<bar>x\<bar> * 1000)"
  let ?frac = "[digit_char (?n div 100), digit_char (?n div 10), digit_char ?n]"
  have "fmt_3f (Finite x) =
          (if x < 0 then ''-'' else []) @ str_nat (?n div 1000) @ ''.'' @ ?frac"
    by (simp add: fmt_3f_def Let_def)
  moreover have "str_nat (?n div 1000) \<noteq> []"
    using length_str_nat_pos [of "?n div 1000"] by auto
  moreover have "list_all is_digit ?frac" by (simp add: is_digit_digit_char)
  ultimately show ?thesis using str_nat_digits by (metis length_Cons list.size(3) numeral_3_eq_3)
qed

section \<open>The rows of the table\<close>

lemma index_of_append:
  "s \<in> set cs \<Longrightarrow> index_of (cs @ extra) s = index_of cs s"
  by (simp add: index_of_def takeWhile_append1)

lemma length_takeWhile_neq_less:
  "s \<in> set cs \<Longrightarrow> length (takeWhile (\<lambda>y. y \<noteq> s) cs) < length cs"
  by (induction cs) auto

lemma index_of_less:
  "s \<in> set cs \<Longrightarrow> \<exists>n. index_of cs s = Inr n \<and> n < length cs"
  by (simp add: index_of_def length_takeWhile_neq_less)

lemma sort_rows_set:
  "sort_rows cols srt table = Inr srows \<Longrightarrow>
   set srows = set table \<and> length srows = length table"
  by (auto simp: sort_rows_def bind_err_def split: option.splits if_splits sum.splits)

lemma sort_rows_succeeds:
  assumes "srt = None \<or> srt = Some [] \<or> (\<exists>s. srt = Some s \<and> s \<in> set cols)"
    and "\<forall>row \<in> set table. length row = length cols"
  shows "\<exists>srows. sort_rows (cols @ extra) srt table = Inr srows
           \<and> sort_rows cols srt table = Inr srows"
proof -
  consider "srt = None" | "srt = Some []" | s where "srt = Some s" "s \<noteq> []" "s \<in> set cols"
    using assms(1) by auto
  then show ?thesis
  proof cases
    case 1 then show ?thesis by (simp add: sort_rows_def)
  next
    case 2 then show ?thesis by (simp add: sort_rows_def)
  next
    case 3
    obtain n where n: "index_of cols s = Inr n" "n < length cols"
      using index_of_less [OF 3(3)] by blast
    have "\<not> list_ex (\<lambda>row. length row \<le> n) table"
      using assms(2) n(2) by (auto simp: list_ex_iff)
    then show ?thesis
      using 3 n by (simp add: sort_rows_def bind_err_def index_of_append)
  qed
qed

text \<open>
  \<open>format\<close> reaches line 218 when the formatter has one accessor for each column, every
  exception of an accessor is an AttributeError, the sort column (if any) is a column of
  the formatter, and there is a record. The rows are then the cells of the records,
  srows and, with \<open>--uniq\<close>, collapsed.
\<close>

lemma format_layout_succeeds:
  assumes len: "length (funcs fm) = length (columns fm)"
    and nf: "\<forall>d \<in> set dcts. \<forall>f \<in> set (funcs fm). \<not> fatal f d"
    and so: "sort_by fm = None \<or> sort_by fm = Some [] \<or>
             (\<exists>s. sort_by fm = Some s \<and> s \<in> set (columns fm))"
    and ne: "dcts \<noteq> []"
  shows "\<exists>L srows. format_layout fm dcts opts = Inr L
    \<and> sort_rows (columns fm) (sort_by fm)
         (map (\<lambda>d. map (\<lambda>f. cell_text f d) (funcs fm)) dcts) = Inr srows
    \<and> rows L = (if opt_uniq opts
                 then map (\<lambda>(row, n). row @ [str_nat n]) (run_lengths srows) else srows)
    \<and> ids L = map row_id dcts"
proof -
  define columns1 where
    "columns1 = (if opt_uniq opts then columns fm @ [''repeat''] else columns fm)"
  define head where
    "head = (if opt_wiki_table opts then map (\<lambda>col. ''*'' @ col @ ''*'') columns1 else columns1)"
  let ?ws0 = "map (\<lambda>col. 0::nat) head" and ?sg0 = "map (\<lambda>col. 1::int) head"
  let ?T = "map (\<lambda>d. map (\<lambda>f. cell_text f d) (funcs fm)) dcts"
  have lh: "length head = length columns1" by (simp add: head_def)
  have lc: "length (funcs fm) \<le> length columns1" using len by (simp add: columns1_def)
  have b: "length (funcs fm) \<le> length ?ws0" using lc lh by simp
  obtain ws' sg' where
    r: "table_rows (funcs fm) dcts ([], ?ws0, ?sg0, []) = Inr (?T, ws', sg', map row_id dcts)"
    and l: "length ws' = length ?ws0"
    using table_rows_result [OF nf b, of ?sg0 "[]" "[]"] by auto
  have rl: "\<forall>row \<in> set ?T. length row = length (columns fm)" using len by auto
  obtain srows where
    s1: "sort_rows columns1 (sort_by fm) ?T = Inr srows"
    and s2: "sort_rows (columns fm) (sort_by fm) ?T = Inr srows"
    using sort_rows_succeeds [OF so rl, of "[''repeat'']"]
      sort_rows_succeeds [OF so rl, of "[]"]
    by (auto simp: columns1_def)
  have sne: "srows \<noteq> []" using sort_rows_set [OF s2] ne by auto
  have wne: "opt_uniq opts \<Longrightarrow> ws' \<noteq> []" using l lh by (auto simp: columns1_def)
  obtain table2 widths2 where
    un: "(if opt_uniq opts then uniq_table srows ws' else Inr (srows, ws')) =
           Inr (table2, widths2)"
    and t2: "table2 = (if opt_uniq opts
                 then map (\<lambda>(row, n). row @ [str_nat n]) (run_lengths srows) else srows)"
  proof (cases "opt_uniq opts")
    case True
    obtain r rest where sr: "srows = r # rest" using sne by (cases srows) auto
    show ?thesis
      using that True uniq_loop_eq [OF wne [OF True], of r 1 rest "[]"] sr
      by (simp add: uniq_table_def)
  next
    case False
    then show ?thesis using that by simp
  qed
  have "format_layout fm dcts opts =
          Inr \<lparr>header = head, rows = table2, widths = final_widths widths2 head,
               signs = sg', ids = map row_id dcts\<rparr>"
    using r s1 un
    unfolding format_layout_def Let_def columns1_def [symmetric] head_def [symmetric]
    by (simp add: bind_err_def)
  then show ?thesis using s2 t2 by simp
qed

text \<open>
  The count column of \<open>--uniq\<close>: its cells are the counts of the blocks, and its final
  width is the larger of the length of the largest count and the length of its label.
\<close>

lemma format_layout_count_column:
  assumes ok: "format_layout fm dcts opts = Inr L"
    and len: "length (funcs fm) = length (columns fm)"
    and uq: "opt_uniq opts"
  shows "\<exists>srows. srows \<noteq> []
    \<and> sort_rows (columns fm @ [''repeat'']) (sort_by fm)
         (map (\<lambda>d. map (\<lambda>f. cell_text f d) (funcs fm)) dcts) = Inr srows
    \<and> rows L = map (\<lambda>(row, n). row @ [str_nat n]) (run_lengths srows)
    \<and> header L ! length (funcs fm) = (if opt_wiki_table opts then ''*repeat*'' else ''repeat'')
    \<and> widths L ! length (funcs fm) =
        max (length (str_nat (Max (snd ` set (run_lengths srows)))))
            (length (header L ! length (funcs fm)))"
proof -
  define columns1 where "columns1 = columns fm @ [''repeat'']"
  define head where
    "head = (if opt_wiki_table opts then map (\<lambda>col. ''*'' @ col @ ''*'') columns1 else columns1)"
  let ?ws0 = "map (\<lambda>col. 0::nat) head" and ?sg0 = "map (\<lambda>col. 1::int) head"
  let ?m = "length (funcs fm)"
  have c1: "(if opt_uniq opts then columns fm @ [''repeat''] else columns fm) = columns1"
    using uq by (simp add: columns1_def)
  have lh: "length head = Suc ?m" using len by (simp add: head_def columns1_def)
  obtain table widths1 sg "is" where
    tr: "table_rows (funcs fm) dcts ([], ?ws0, ?sg0, []) = Inr (table, widths1, sg, is)"
    using ok unfolding format_layout_def Let_def c1 head_def [symmetric]
    by (auto simp: bind_err_def split: sum.splits)
  obtain srows where so: "sort_rows columns1 (sort_by fm) table = Inr srows"
    using ok tr unfolding format_layout_def Let_def c1 head_def [symmetric]
    by (auto simp: bind_err_def split: sum.splits)
  obtain table2 widths2 where un: "uniq_table srows widths1 = Inr (table2, widths2)"
    using ok tr so uq unfolding format_layout_def Let_def c1 head_def [symmetric]
    by (auto simp: bind_err_def split: sum.splits)
  have L: "L = \<lparr>header = head, rows = table2, widths = final_widths widths2 head,
                signs = sg, ids = is\<rparr>"
    using ok tr so un uq unfolding format_layout_def Let_def c1 head_def [symmetric]
    by (simp add: bind_err_def)
  have nf: "\<forall>d \<in> set dcts. \<forall>f \<in> set (funcs fm). \<not> fatal f d"
    using table_rows_Inr_not_fatal [OF tr] by blast
  have b: "?m \<le> length ?ws0" using lh by simp
  obtain ws' sg' where
    r: "table_rows (funcs fm) dcts ([], ?ws0, ?sg0, []) =
          Inr ([] @ map (\<lambda>d. map (\<lambda>f. cell_text f d) (funcs fm)) dcts, ws', sg',
               [] @ map row_id dcts)"
    and l: "length ws' = length ?ws0"
    and w: "\<forall>k < length ?ws0. ws' ! k =
          (if k < ?m
           then fold max (map (\<lambda>d. length (cell_text (funcs fm ! k) d)) dcts) (?ws0 ! k)
           else ?ws0 ! k)"
    using table_rows_result [OF nf b, of ?sg0 "[]" "[]"] by auto
  have same: "widths1 = ws'" using tr r by simp
  have "table = map (\<lambda>d. map (\<lambda>f. cell_text f d) (funcs fm)) dcts" using tr r by simp
  then have so': "sort_rows (columns fm @ [''repeat'']) (sort_by fm)
         (map (\<lambda>d. map (\<lambda>f. cell_text f d) (funcs fm)) dcts) = Inr srows"
    using so by (simp add: columns1_def)
  have lw: "length widths1 = Suc ?m" using l lh same by simp
  have wne: "widths1 \<noteq> []" using lw by auto
  have "widths1 ! ?m = 0" using w lh same by simp
  then have lastw: "last widths1 = 0" using lw wne by (simp add: last_conv_nth)
  obtain r0 rest where sr: "srows = r0 # rest"
    using un by (cases srows) (auto simp: uniq_table_def)
  have ne: "run_lengths srows \<noteq> []" using sr by simp
  have t2: "table2 = map (\<lambda>(row, n). row @ [str_nat n]) (run_lengths srows)"
    and w2: "widths2 = widths1[?m := length (str_nat (Max (snd ` set (run_lengths srows))))]"
    using un uniq_loop_eq [OF wne, of r0 1 rest "[]"] fold_count_width [OF ne, of 0] sr lw lastw
    by (simp_all add: uniq_table_def)
  have pos: "0 < length (str_nat (Max (snd ` set (run_lengths srows))))"
    by (rule length_str_nat_pos)
  have w2m: "widths2 ! ?m = length (str_nat (Max (snd ` set (run_lengths srows))))"
    using w2 lw by simp
  have hm: "head ! ?m = (if opt_wiki_table opts then ''*repeat*'' else ''repeat'')"
    using len by (simp add: head_def columns1_def nth_append)
  have "final_widths widths2 head ! ?m =
          (if widths2 ! ?m = 0 then 0 else max (widths2 ! ?m) (length (head ! ?m)))"
    using final_widths_nth [of ?m widths2 head] w2 lw lh by simp
  then have "widths L ! ?m =
        max (length (str_nat (Max (snd ` set (run_lengths srows))))) (length (head ! ?m))"
    using L w2m pos by simp
  then show ?thesis using L t2 hm sr so' by auto
qed

section \<open>The claims about the table\<close>

text \<open>
  C6. With at least one data row (and the count column in the widths), deduplication
  replaces every maximal block of consecutive equal rows by that row with the length of
  the block as an extra last cell, in the order of the blocks: the blocks put back one
  after the other are the table, neighbouring blocks differ and no count is zero. The
  last width becomes the larger of its old value and the number of decimal digits of the
  largest count. In particular the rows \<open>A, A, B, B, B\<close> become \<open>A\<close> with count 2, then
  \<open>B\<close> with count 3. When \<open>format\<close> lays out a table with \<open>--uniq\<close>, its rows are the
  sorted rows of cells collapsed in this way, and before the header label is taken into
  account the width of the count column is the number of digits of the largest count.
\<close>

theorem uniq_table_collapses:
  assumes "table \<noteq> []" and "ws \<noteq> []"
  shows "uniq_table table ws =
           Inr (map (\<lambda>(row, n). row @ [str_nat n]) (run_lengths table),
                ws[length ws - 1 :=
                   max (last ws) (length (str_nat (Max (snd ` set (run_lengths table)))))])
    \<and> concat (map (\<lambda>(row, n). replicate n row) (run_lengths table)) = table
    \<and> distinct_adj (map fst (run_lengths table))
    \<and> list_all (\<lambda>(row, n). 0 < n) (run_lengths table)
    \<and> (table = [A, A, B, B, B] \<and> A \<noteq> B \<longrightarrow>
         uniq_table table ws =
           Inr ([A @ [''2''], B @ [''3'']], ws[length ws - 1 := max (last ws) 1]))
    \<and> (format_layout fm dcts opts = Inr L \<and> length (funcs fm) = length (columns fm) \<and>
        opt_uniq opts \<longrightarrow>
         (\<exists>srows. sort_rows (columns fm @ [''repeat'']) (sort_by fm)
                     (map (\<lambda>d. map (\<lambda>f. cell_text f d) (funcs fm)) dcts) = Inr srows
            \<and> rows L = map (\<lambda>(row, n). row @ [str_nat n]) (run_lengths srows)
            \<and> widths L ! length (funcs fm) =
                max (length (str_nat (Max (snd ` set (run_lengths srows)))))
                    (length (header L ! length (funcs fm)))))"
proof -
  obtain r rest where t: "table = r # rest" using assms(1) by (cases table) auto
  have ne: "run_lengths table \<noteq> []" using assms(1) by (simp add: run_lengths_Nil_iff)
  have "uniq_table table ws =
          Inr (map (\<lambda>(row, n). row @ [str_nat n]) (run_lengths table),
               ws[length ws - 1 :=
                  fold (\<lambda>g w. max w (length (str_nat (snd g)))) (run_lengths table) (last ws)])"
    unfolding t using uniq_loop_eq [OF assms(2), of r 1 rest "[]"]
    by (simp add: uniq_table_def)
  then have main: "uniq_table table ws =
           Inr (map (\<lambda>(row, n). row @ [str_nat n]) (run_lengths table),
                ws[length ws - 1 :=
                   max (last ws) (length (str_nat (Max (snd ` set (run_lengths table)))))])"
    using fold_count_width [OF ne] by simp
  have ex: "table = [A, A, B, B, B] \<and> A \<noteq> B \<longrightarrow>
         uniq_table table ws =
           Inr ([A @ [''2''], B @ [''3'']], ws[length ws - 1 := max (last ws) 1])"
  proof
    assume a: "table = [A, A, B, B, B] \<and> A \<noteq> B"
    then have rl: "run_lengths table = [(A, 2), (B, 3)]" by auto
    show "uniq_table table ws =
           Inr ([A @ [''2''], B @ [''3'']], ws[length ws - 1 := max (last ws) 1])"
      unfolding main rl by (simp add: str_nat.simps digit_char_def)
  qed
  have fl: "format_layout fm dcts opts = Inr L \<and> length (funcs fm) = length (columns fm) \<and>
        opt_uniq opts \<longrightarrow>
         (\<exists>srows. sort_rows (columns fm @ [''repeat'']) (sort_by fm)
                     (map (\<lambda>d. map (\<lambda>f. cell_text f d) (funcs fm)) dcts) = Inr srows
            \<and> rows L = map (\<lambda>(row, n). row @ [str_nat n]) (run_lengths srows)
            \<and> widths L ! length (funcs fm) =
                max (length (str_nat (Max (snd ` set (run_lengths srows)))))
                    (length (header L ! length (funcs fm))))"
    using format_layout_count_column [of fm dcts opts L] by blast
  show ?thesis
    using main ex fl run_lengths_concat [of table] run_lengths_distinct_adj [of table]
      run_lengths_pos [of table]
    by blast
qed

theorem uniq_table_collapses_witness:
  "uniq_table [[''x''], [''x''], [''y''], [''y''], [''y'']] [1, 0] =
     Inr ([[''x'', ''2''], [''y'', ''3'']], [1, 1])
   \<and> (\<exists>L. format_layout \<lparr>columns = [''tag''], funcs = [keyval_func ''tag''],
                           sort_by = Some ''tag''\<rparr>
        [\<lparr>row_id = 1, pbc = (False, False, False),
          cell = ((1, 0, 0), (0, 1, 0), (0, 0, 1)), forces = None, constraints = None,
          key_value_pairs = Some [(''tag'', ''y'')]\<rparr>,
         \<lparr>row_id = 2, pbc = (False, False, False),
          cell = ((1, 0, 0), (0, 1, 0), (0, 0, 1)), forces = None, constraints = None,
          key_value_pairs = Some [(''tag'', ''x'')]\<rparr>,
         \<lparr>row_id = 3, pbc = (False, False, False),
          cell = ((1, 0, 0), (0, 1, 0), (0, 0, 1)), forces = None, constraints = None,
          key_value_pairs = Some [(''tag'', ''y'')]\<rparr>]
        \<lparr>opt_count = False, opt_list_columns = False, opt_columns = Some ''tag'',
         opt_include_all = False, opt_sort = Some ''tag'', opt_uniq = True,
         opt_extract = None, opt_wiki_table = False, opt_quiet = False,
         opt_verbose = False\<rparr> = Inr L
      \<and> rows L = [[''x'', ''1''], [''y'', ''2'']] \<and> widths L = [3, 6])"
proof -
  let ?fm = "\<lparr>columns = [''tag''], funcs = [keyval_func ''tag''], sort_by = Some ''tag''\<rparr>"
  let ?d1 = "\<lparr>row_id = 1, pbc = (False, False, False),
          cell = ((1, 0, 0), (0, 1, 0), (0, 0, 1)), forces = None, constraints = None,
          key_value_pairs = Some [(''tag'', ''y'')]\<rparr>"
  let ?d2 = "\<lparr>row_id = 2, pbc = (False, False, False),
          cell = ((1, 0, 0), (0, 1, 0), (0, 0, 1)), forces = None, constraints = None,
          key_value_pairs = Some [(''tag'', ''x'')]\<rparr>"
  let ?d3 = "\<lparr>row_id = 3, pbc = (False, False, False),
          cell = ((1, 0, 0), (0, 1, 0), (0, 0, 1)), forces = None, constraints = None,
          key_value_pairs = Some [(''tag'', ''y'')]\<rparr>"
  let ?opts = "\<lparr>opt_count = False, opt_list_columns = False, opt_columns = Some ''tag'',
         opt_include_all = False, opt_sort = Some ''tag'', opt_uniq = True,
         opt_extract = None, opt_wiki_table = False, opt_quiet = False,
         opt_verbose = False\<rparr>"
  let ?L = "\<lparr>header = [''tag'', ''repeat''], rows = [[''x'', ''1''], [''y'', ''2'']],
           widths = [3, 6], signs = [- 1, 1], ids = [1, 2, 3]\<rparr>"
  have xy: "''x'' < ''y''" "\<not> ''y'' \<le> ''x''" "\<not> ''y'' < ''x''" "''x'' \<le> ''y''"
    by (simp_all add: less_char_def less_eq_char_def)
  have ok: "format_layout ?fm [?d1, ?d2, ?d3] ?opts = Inr ?L"
    by (simp add: format_layout_def bind_err_def keyval_func_def sort_rows_def
        index_of_def uniq_table_def emit_group_def final_widths_def str_nat.simps
        digit_char_def xy)
  have ne: "[[''x''], [''x''], [''y''], [''y''], [''y'']] \<noteq> []" and wne: "[1, 0::nat] \<noteq> []"
    by simp_all
  have ab: "[''x''] \<noteq> [''y'']" by simp
  have "uniq_table [[''x''], [''x''], [''y''], [''y''], [''y'']] [1, 0] =
           Inr ([[''x''] @ [''2''], [''y''] @ [''3'']],
                [1, 0][length [1, 0::nat] - 1 := max (last [1, 0]) 1])"
    using uniq_table_collapses [OF ne wne, of "[''x'']" "[''y'']"] ab by blast
  then have first: "uniq_table [[''x''], [''x''], [''y''], [''y''], [''y'']] [1, 0] =
     Inr ([[''x'', ''2''], [''y'', ''3'']], [1, 1])"
    by simp
  have len: "length (funcs ?fm) = length (columns ?fm)" and uq: "opt_uniq ?opts"
    by simp_all
  have laid: "\<exists>srows. sort_rows (columns ?fm @ [''repeat'']) (sort_by ?fm)
                     (map (\<lambda>d. map (\<lambda>f. cell_text f d) (funcs ?fm)) [?d1, ?d2, ?d3])
                   = Inr srows
            \<and> rows ?L = map (\<lambda>(row, n). row @ [str_nat n]) (run_lengths srows)
            \<and> widths ?L ! length (funcs ?fm) =
                max (length (str_nat (Max (snd ` set (run_lengths srows)))))
                    (length (header ?L ! length (funcs ?fm)))"
    using uniq_table_collapses [OF ne wne, where fm = ?fm and dcts = "[?d1, ?d2, ?d3]"
        and opts = ?opts and L = ?L] ok len uq
    by blast
  have "rows ?L = [[''x'', ''1''], [''y'', ''2'']] \<and> widths ?L = [3, 6]" by simp
  then show ?thesis using first ok laid by blast
qed

text \<open>
  C4, as amended. In a table that \<open>format\<close> has laid out, for a formatter with one
  accessor for each column: the final width of a data column is \<open>0\<close> when every cell of
  the column is empty, and otherwise the maximum of the length of its longest cell and
  the length of its header label; a column of width \<open>0\<close> is left out of every printed
  line. With \<open>--uniq\<close> the width of the count column is the maximum of the length of its
  longest cell (the largest count) and the length of its label.
\<close>

theorem final_width_spec:
  assumes "format_layout fm dcts opts = Inr L"
    and "length (funcs fm) = length (columns fm)"
    and "i < length (funcs fm)"
  shows "widths L ! i =
           (if \<forall>d \<in> set dcts. cell_text (funcs fm ! i) d = [] then 0
            else max (longest_cell (funcs fm ! i) dcts) (length (header L ! i)))
    \<and> (dcts \<noteq> [] \<longrightarrow>
         longest_cell (funcs fm ! i) dcts =
           Max ((\<lambda>d. length (cell_text (funcs fm ! i) d)) ` set dcts))
    \<and> header L ! i =
        (if opt_wiki_table opts then ''*'' @ columns fm ! i @ ''*'' else columns fm ! i)
    \<and> (\<forall>row. format_line (opt_wiki_table opts) (widths L) (signs L) row =
          (let line = join ''|''
                 (map (\<lambda>k. pad (int (widths L ! k) * signs L ! k) (row ! k))
                    (filter (\<lambda>k. 0 < widths L ! k)
                       [0..<min (length (widths L)) (min (length (signs L)) (length row))]))
           in if opt_wiki_table opts then ''|'' @ line @ ''|'' else line))
    \<and> (opt_uniq opts \<longrightarrow>
         (\<exists>srows. rows L = map (\<lambda>(row, n). row @ [str_nat n]) (run_lengths srows)
            \<and> widths L ! length (funcs fm) =
                max (length (str_nat (Max (snd ` set (run_lengths srows)))))
                    (length (header L ! length (funcs fm)))))"
proof -
  have cnt: "opt_uniq opts \<longrightarrow>
         (\<exists>srows. rows L = map (\<lambda>(row, n). row @ [str_nat n]) (run_lengths srows)
            \<and> widths L ! length (funcs fm) =
                max (length (str_nat (Max (snd ` set (run_lengths srows)))))
                    (length (header L ! length (funcs fm))))"
    using format_layout_count_column [OF assms(1,2)] by blast
  show ?thesis
    using format_layout_data_column [OF assms] longest_cell_Max [of dcts "funcs fm ! i"]
      longest_cell_zero_iff [of "funcs fm ! i" dcts] format_line_index cnt
    by auto
qed

theorem final_width_spec_witness:
  "format_layout \<lparr>columns = [''id'', ''tag''], funcs = [id_col, keyval_func ''tag''],
                   sort_by = None\<rparr>
     [\<lparr>row_id = 7, pbc = (False, False, False), cell = ((1, 0, 0), (0, 1, 0), (0, 0, 1)),
       forces = None, constraints = None, key_value_pairs = Some [(''tag'', ''abcde'')]\<rparr>]
     \<lparr>opt_count = False, opt_list_columns = False, opt_columns = Some ''id,tag'',
      opt_include_all = False, opt_sort = None, opt_uniq = False, opt_extract = None,
      opt_wiki_table = False, opt_quiet = False, opt_verbose = False\<rparr>
   = Inr \<lparr>header = [''id'', ''tag''], rows = [[''7'', ''abcde'']], widths = [2, 5],
          signs = [1, - 1], ids = [7]\<rparr>
   \<and> longest_cell (keyval_func ''tag'')
       [\<lparr>row_id = 7, pbc = (False, False, False), cell = ((1, 0, 0), (0, 1, 0), (0, 0, 1)),
         forces = None, constraints = None, key_value_pairs = Some [(''tag'', ''abcde'')]\<rparr>]
     = 5
   \<and> max (5::nat) (length ''tag'') = 5
   \<and> (\<exists>L. format_layout \<lparr>columns = [''id'', ''tag''],
                    funcs = [id_col, keyval_func ''tag''], sort_by = Some ''tag''\<rparr>
     [\<lparr>row_id = 7, pbc = (False, False, False), cell = ((1, 0, 0), (0, 1, 0), (0, 0, 1)),
       forces = None, constraints = None, key_value_pairs = Some [(''tag'', ''abcde'')]\<rparr>]
     \<lparr>opt_count = False, opt_list_columns = False, opt_columns = Some ''id,tag'',
      opt_include_all = False, opt_sort = Some ''tag'', opt_uniq = True, opt_extract = None,
      opt_wiki_table = False, opt_quiet = False, opt_verbose = False\<rparr> = Inr L
     \<and> rows L = [[''7'', ''abcde'', ''1'']] \<and> widths L = [2, 5, 6])"
proof -
  let ?fmu = "\<lparr>columns = [''id'', ''tag''], funcs = [id_col, keyval_func ''tag''],
               sort_by = Some ''tag''\<rparr>"
  let ?optsu = "\<lparr>opt_count = False, opt_list_columns = False, opt_columns = Some ''id,tag'',
      opt_include_all = False, opt_sort = Some ''tag'', opt_uniq = True, opt_extract = None,
      opt_wiki_table = False, opt_quiet = False, opt_verbose = False\<rparr>"
  let ?LU = "\<lparr>header = [''id'', ''tag'', ''repeat''], rows = [[''7'', ''abcde'', ''1'']],
           widths = [2, 5, 6], signs = [1, - 1, 1], ids = [7]\<rparr>"
  let ?fm = "\<lparr>columns = [''id'', ''tag''], funcs = [id_col, keyval_func ''tag''],
              sort_by = None\<rparr>"
  let ?d = "\<lparr>row_id = 7, pbc = (False, False, False),
             cell = ((1, 0, 0), (0, 1, 0), (0, 0, 1)),
             forces = None, constraints = None,
             key_value_pairs = Some [(''tag'', ''abcde'')]\<rparr>"
  let ?opts = "\<lparr>opt_count = False, opt_list_columns = False, opt_columns = Some ''id,tag'',
      opt_include_all = False, opt_sort = None, opt_uniq = False, opt_extract = None,
      opt_wiki_table = False, opt_quiet = False, opt_verbose = False\<rparr>"
  let ?L = "\<lparr>header = [''id'', ''tag''], rows = [[''7'', ''abcde'']], widths = [2, 5],
          signs = [1, - 1], ids = [7]\<rparr>"
  have ok: "format_layout ?fm [?d] ?opts = Inr ?L"
    by (simp add: format_layout_def bind_err_def id_col_def keyval_func_def sort_rows_def
        final_widths_def str_int_def str_nat.simps digit_char_def)
  have len: "length (funcs ?fm) = length (columns ?fm)" by simp
  have i: "1 < length (funcs ?fm)" by simp
  have lc: "longest_cell (keyval_func ''tag'') [?d] = 5"
    by (simp add: longest_cell_def cell_text_def keyval_func_def)
  have oku: "format_layout ?fmu [?d] ?optsu = Inr ?LU"
    by (simp add: format_layout_def bind_err_def id_col_def keyval_func_def sort_rows_def
        index_of_def uniq_table_def emit_group_def final_widths_def str_int_def
        str_nat.simps digit_char_def)
  have lenu: "length (funcs ?fmu) = length (columns ?fmu)" by simp
  have iu: "1 < length (funcs ?fmu)" by simp
  show ?thesis
    using final_width_spec [OF ok len i] final_width_spec [OF oku lenu iu] ok oku lc by simp
qed

text \<open>
  One record without constraints and the column \<open>fmax\<close>: the accessor raises
  AttributeError, the only cell is empty, and the final width is \<open>0\<close>, not the length
  \<open>4\<close> of the label, although the table has a data row. Both printed lines are empty.
\<close>

theorem final_width_spec_counterexample:
  "format_layout \<lparr>columns = [''fmax''], funcs = [fmax], sort_by = None\<rparr>
     [\<lparr>row_id = 2, pbc = (False, False, False), cell = ((1, 0, 0), (0, 1, 0), (0, 0, 1)),
       forces = None, constraints = None, key_value_pairs = None\<rparr>]
     \<lparr>opt_count = False, opt_list_columns = False, opt_columns = Some ''fmax'',
      opt_include_all = False, opt_sort = None, opt_uniq = False, opt_extract = None,
      opt_wiki_table = False, opt_quiet = False, opt_verbose = False\<rparr>
   = Inr \<lparr>header = [''fmax''], rows = [['''']], widths = [0], signs = [1], ids = [2]\<rparr>
   \<and> max (length '''') (length ''fmax'') = 4
   \<and> format \<lparr>columns = [''fmax''], funcs = [fmax], sort_by = None\<rparr>
     [\<lparr>row_id = 2, pbc = (False, False, False), cell = ((1, 0, 0), (0, 1, 0), (0, 0, 1)),
       forces = None, constraints = None, key_value_pairs = None\<rparr>]
     \<lparr>opt_count = False, opt_list_columns = False, opt_columns = Some ''fmax'',
      opt_include_all = False, opt_sort = None, opt_uniq = False, opt_extract = None,
      opt_wiki_table = False, opt_quiet = False, opt_verbose = False\<rparr>
   = Inr (['''', ''''], [2], [])"
  by (simp add: format_def format_layout_def bind_err_def fmax_def sort_rows_def
      final_widths_def visible_columns_def format_line_def)

text \<open>
  C5, as amended. For a formatter with one accessor for each column, records on which
  every exception of an accessor is an AttributeError, and a sort column (if any) of the
  formatter: \<open>format\<close> lays the table out, and its rows are the rows of cells of the
  records, sorted and with \<open>--uniq\<close> collapsed. The cell of a record in a column is empty
  when the accessor raises AttributeError, the decimal digits of an int (no decimal
  point), the \<open>%.3f\<close> rendering of a float, which for a finite float has exactly three
  digits after the point and for an infinity or NaN is \<open>inf\<close>, \<open>-inf\<close> or \<open>nan\<close>, and a
  string as it is. The sign of a column is \<open>-1\<close> exactly when
  one of its values is textual. In a printed line every cell of a column of non-zero
  width is padded to the width: on the left (right-justified) under the sign \<open>1\<close>, on
  the right (left-justified) under the sign \<open>-1\<close>.
\<close>

theorem cells_and_alignment:
  assumes "length (funcs fm) = length (columns fm)"
    and "\<forall>d \<in> set dcts. \<forall>f \<in> set (funcs fm). \<not> fatal f d"
    and "sort_by fm = None \<or> sort_by fm = Some [] \<or>
         (\<exists>s. sort_by fm = Some s \<and> s \<in> set (columns fm))"
    and "dcts \<noteq> []"
    and "i < length (funcs fm)"
    and "d \<in> set dcts"
  shows "\<exists>L srows. format_layout fm dcts opts = Inr L
    \<and> sort_rows (columns fm) (sort_by fm)
         (map (\<lambda>d. map (\<lambda>f. cell_text f d) (funcs fm)) dcts) = Inr srows
    \<and> rows L = (if opt_uniq opts
                 then map (\<lambda>(row, n). row @ [str_nat n]) (run_lengths srows) else srows)
    \<and> cell_text (funcs fm ! i) d =
        (case (funcs fm ! i) d of
           Inl e \<Rightarrow> []
         | Inr (VInt n) \<Rightarrow> str_int n
         | Inr (VFloat x) \<Rightarrow> fmt_3f x
         | Inr (VStr s) \<Rightarrow> s)
    \<and> (\<forall>n. CHR ''.'' \<notin> set (str_int n))
    \<and> (\<forall>x. \<exists>whole frac.
          fmt_3f (Finite x) = (if x < 0 then ''-'' else []) @ whole @ ''.'' @ frac
          \<and> whole \<noteq> [] \<and> list_all is_digit whole
          \<and> length frac = 3 \<and> list_all is_digit frac)
    \<and> fmt_3f NaN = ''nan'' \<and> fmt_3f PosInf = ''inf'' \<and> fmt_3f NegInf = ''-inf''
    \<and> signs L ! i = (if \<exists>d \<in> set dcts. textual (funcs fm ! i) d then - 1 else 1)
    \<and> (\<forall>row. format_line (opt_wiki_table opts) (widths L) (signs L) row =
          (let line = join ''|''
                 (map (\<lambda>k. pad (int (widths L ! k) * signs L ! k) (row ! k))
                    (filter (\<lambda>k. 0 < widths L ! k)
                       [0..<min (length (widths L)) (min (length (signs L)) (length row))]))
           in if opt_wiki_table opts then ''|'' @ line @ ''|'' else line))
    \<and> (\<forall>w s. pad (int w * 1) s = replicate (w - length s) CHR '' '' @ s)
    \<and> (\<forall>w s. 0 < w \<longrightarrow> pad (int w * - 1) s = s @ replicate (w - length s) CHR '' '')"
proof -
  obtain L srows where
    ok: "format_layout fm dcts opts = Inr L"
    and so: "sort_rows (columns fm) (sort_by fm)
         (map (\<lambda>d. map (\<lambda>f. cell_text f d) (funcs fm)) dcts) = Inr srows"
    and ro: "rows L = (if opt_uniq opts
                 then map (\<lambda>(row, n). row @ [str_nat n]) (run_lengths srows) else srows)"
    using format_layout_succeeds [OF assms(1-4), of opts] by blast
  have sg: "signs L ! i = (if \<exists>d \<in> set dcts. textual (funcs fm ! i) d then - 1 else 1)"
    using format_layout_data_column [OF ok assms(1) assms(5)] by blast
  have ct: "cell_text (funcs fm ! i) d =
        (case (funcs fm ! i) d of
           Inl e \<Rightarrow> []
         | Inr (VInt n) \<Rightarrow> str_int n
         | Inr (VFloat x) \<Rightarrow> fmt_3f x
         | Inr (VStr s) \<Rightarrow> s)"
    by (simp add: cell_text_def split: sum.splits pyval.splits)
  have nonfinite: "fmt_3f NaN = ''nan''" "fmt_3f PosInf = ''inf''" "fmt_3f NegInf = ''-inf''"
    by (simp_all add: fmt_3f_def)
  show ?thesis
    using ok so ro sg ct str_int_no_point fmt_3f_finite format_line_index
      pad_right_justified pad_left_justified nonfinite
    by blast
qed


theorem cells_and_alignment_witness:
  "\<exists>L. format_layout \<lparr>columns = [''id'', ''tag''], funcs = [id_col, keyval_func ''tag''],
                        sort_by = None\<rparr>
          [\<lparr>row_id = 7, pbc = (False, False, False),
            cell = ((1, 0, 0), (0, 1, 0), (0, 0, 1)), forces = None, constraints = None,
            key_value_pairs = Some [(''tag'', ''abcde'')]\<rparr>,
           \<lparr>row_id = 8, pbc = (False, False, False),
            cell = ((1, 0, 0), (0, 1, 0), (0, 0, 1)), forces = None, constraints = None,
            key_value_pairs = None\<rparr>]
          \<lparr>opt_count = False, opt_list_columns = False, opt_columns = Some ''id,tag'',
           opt_include_all = False, opt_sort = None, opt_uniq = False, opt_extract = None,
           opt_wiki_table = False, opt_quiet = False, opt_verbose = False\<rparr> = Inr L
     \<and> rows L = [[''7'', ''abcde''], [''8'', []]]
     \<and> signs L ! 1 = - 1"
proof -
  let ?fm = "\<lparr>columns = [''id'', ''tag''], funcs = [id_col, keyval_func ''tag''],
              sort_by = None\<rparr>"
  let ?d1 = "\<lparr>row_id = 7, pbc = (False, False, False),
            cell = ((1, 0, 0), (0, 1, 0), (0, 0, 1)), forces = None, constraints = None,
            key_value_pairs = Some [(''tag'', ''abcde'')]\<rparr>"
  let ?d2 = "\<lparr>row_id = 8, pbc = (False, False, False),
            cell = ((1, 0, 0), (0, 1, 0), (0, 0, 1)), forces = None, constraints = None,
            key_value_pairs = None\<rparr>"
  let ?opts = "\<lparr>opt_count = False, opt_list_columns = False, opt_columns = Some ''id,tag'',
           opt_include_all = False, opt_sort = None, opt_uniq = False, opt_extract = None,
           opt_wiki_table = False, opt_quiet = False, opt_verbose = False\<rparr>"
  have len: "length (funcs ?fm) = length (columns ?fm)" by simp
  have nf: "\<forall>d \<in> set [?d1, ?d2]. \<forall>f \<in> set (funcs ?fm). \<not> fatal f d"
    by (simp add: fatal_def id_col_def keyval_func_def)
  have so: "sort_by ?fm = None \<or> sort_by ?fm = Some [] \<or>
         (\<exists>s. sort_by ?fm = Some s \<and> s \<in> set (columns ?fm))" by simp
  have ne: "[?d1, ?d2] \<noteq> []" by simp
  have i: "1 < length (funcs ?fm)" by simp
  have d: "?d1 \<in> set [?d1, ?d2]" by simp
  obtain L srows where
    ok: "format_layout ?fm [?d1, ?d2] ?opts = Inr L"
    and sr: "sort_rows (columns ?fm) (sort_by ?fm)
         (map (\<lambda>d. map (\<lambda>f. cell_text f d) (funcs ?fm)) [?d1, ?d2]) = Inr srows"
    and ro: "rows L = (if opt_uniq ?opts
                 then map (\<lambda>(row, n). row @ [str_nat n]) (run_lengths srows) else srows)"
    and sg: "signs L ! 1 =
               (if \<exists>d \<in> set [?d1, ?d2]. textual (funcs ?fm ! 1) d then - 1 else 1)"
    using cells_and_alignment [OF len nf so ne i d, of ?opts] by blast
  have "srows = [[''7'', ''abcde''], [''8'', []]]"
    using sr
    by (simp add: sort_rows_def cell_text_def id_col_def keyval_func_def str_int_def
        str_nat.simps digit_char_def)
  moreover have "signs L ! 1 = - 1"
    using sg by (simp add: textual_def keyval_func_def)
  ultimately show ?thesis using ok ro by simp
qed

text \<open>
  A float that is NaN is printed as \<open>nan\<close>, without decimals.
\<close>

theorem cells_and_alignment_counterexample:
  "format \<lparr>columns = [''energy''], funcs = [\<lambda>d. Inr (VFloat NaN)], sort_by = None\<rparr>
     [\<lparr>row_id = 1, pbc = (False, False, False), cell = ((1, 0, 0), (0, 1, 0), (0, 0, 1)),
       forces = None, constraints = None, key_value_pairs = None\<rparr>]
     \<lparr>opt_count = False, opt_list_columns = False, opt_columns = Some ''energy'',
      opt_include_all = False, opt_sort = None, opt_uniq = False, opt_extract = None,
      opt_wiki_table = False, opt_quiet = False, opt_verbose = False\<rparr>
   = Inr ([''energy'', ''   nan''], [1], [''energy''])
   \<and> CHR ''.'' \<notin> set ''   nan''"
  by (simp add: format_def format_layout_def bind_err_def sort_rows_def
      final_widths_def visible_columns_def format_line_def fmt_3f_def pad_def
      numeral_3_eq_3)

end
